theory Spec2Isabelle
  imports Complex_Main
begin

section \<open>JavaScript values and the environment\<close>

text \<open>
  The extension reads JSON documents whose shape it does not control
  (\<^verbatim>\<open>const bundledObject = JSON.parse(packageBundled)\<close> has type \<^verbatim>\<open>any\<close>), so the
  parsed document is a value of the JSON universe. \<^verbatim>\<open>undefined\<close>, the result of reading
  a property that is not there, is \<open>None\<close> of \<open>json option\<close>.
\<close>

datatype json =
    JNull
  | JBool bool
  | JNum rat
  | JStr string
  | JArr "json list"
  | JObj "(string \<times> json) list"

datatype jserror = TypeError | SyntaxError | IOError

text \<open>JavaScript truthiness, as tested by \<^verbatim>\<open>if (x)\<close> and \<^verbatim>\<open>!x\<close>.\<close>

fun truthy :: "json \<Rightarrow> bool" where
  "truthy JNull = False"
| "truthy (JBool b) = b"
| "truthy (JNum n) = (n \<noteq> 0)"
| "truthy (JStr s) = (s \<noteq> [])"
| "truthy (JArr xs) = True"
| "truthy (JObj kvs) = True"

fun truthy_opt :: "json option \<Rightarrow> bool" where
  "truthy_opt None = False"
| "truthy_opt (Some v) = truthy v"

text \<open>
  Reading a property \<^verbatim>\<open>x.k\<close>: a \<^verbatim>\<open>TypeError\<close> on \<^verbatim>\<open>null\<close>, the stored value on an
  object, \<^verbatim>\<open>undefined\<close> otherwise. The property names read by the code below
  (\<^verbatim>\<open>packages\<close>, \<^verbatim>\<open>platforms\<close>, \<^verbatim>\<open>version\<close>, \<^verbatim>\<open>name\<close>, \<^verbatim>\<open>architecture\<close>) are not
  defined on strings, numbers, booleans or arrays.
\<close>

fun getProp :: "json \<Rightarrow> string \<Rightarrow> jserror + json option" where
  "getProp JNull k = Inl TypeError"
| "getProp (JObj kvs) k = Inr (map_of kvs k)"
| "getProp v k = Inr None"

text \<open>
  The values a \<^verbatim>\<open>for (const x of v)\<close> loop runs over: the elements of an array, the
  characters of a string, and a \<^verbatim>\<open>TypeError\<close> for everything that is not iterable.
\<close>

fun iterate :: "json option \<Rightarrow> jserror + json list" where
  "iterate (Some (JArr xs)) = Inr xs"
| "iterate (Some (JStr s)) = Inr (map (\<lambda>c. JStr [c]) s)"
| "iterate v = Inl TypeError"

text \<open>
  \<^verbatim>\<open>s.split(re)\<close> for a separator \<^verbatim>\<open>re\<close> that matches single characters: the pieces between the
  matches, empty pieces included.
\<close>

fun splitOn :: "(char \<Rightarrow> bool) \<Rightarrow> string \<Rightarrow> string list" where
  "splitOn sep [] = [[]]"
| "splitOn sep (c # cs) =
     (if sep c then [] # splitOn sep cs
      else (case splitOn sep cs of [] \<Rightarrow> [[c]] | l # ls \<Rightarrow> (c # l) # ls))"

text \<open>
  A path is the list of its segments below the root; a segment is the name of a
  directory entry. Where the code joins a path with
  constants or with the names of directory entries, \<^verbatim>\<open>path.join(p, a, b)\<close> appends the
  segments \<open>a\<close> and \<open>b\<close> to \<open>p\<close>.

  Where it joins a path with strings it does not control (the package name and the
  architecture of a JSON document), \<^verbatim>\<open>path.join\<close> is \<open>path_join\<close>: the POSIX \<^verbatim>\<open>path.join\<close> of
  Node, which cuts its arguments at \<^verbatim>\<open>/\<close> and normalises the result. An empty segment and
  the segment \<^verbatim>\<open>.\<close> vanish, and \<^verbatim>\<open>..\<close> removes the segment before it (at the root, it
  stays at the root).
\<close>

type_synonym path = "string list"

definition isPathSeparator :: "char \<Rightarrow> bool" where
  "isPathSeparator c \<longleftrightarrow> c = CHR ''/''"

definition joinSegment :: "path \<Rightarrow> string \<Rightarrow> path" where
  "joinSegment p s =
     (if s = [] \<or> s = ''.'' then p
      else if s = ''..'' then butlast p
      else p @ [s])"

definition path_join :: "path \<Rightarrow> string list \<Rightarrow> path" where
  "path_join p args = foldl joinSegment [] (p @ concat (map (splitOn isPathSeparator) args))"

text \<open>
  What the code observes of its surroundings: the file system through Node's \<^verbatim>\<open>fs\<close>
  module and \<^verbatim>\<open>glob\<close>, \<^verbatim>\<open>JSON.parse\<close>, and the helpers of \<^verbatim>\<open>common/util\<close>. A call that
  throws returns \<open>Inl\<close>.

  Modelled from the spec: the helpers of \<^verbatim>\<open>common/util\<close> are not among the sources.
  \<^verbatim>\<open>util.directoryExistsSync\<close>, \<^verbatim>\<open>util.fileExistsSync\<close>, \<^verbatim>\<open>util.readdirSync(dir, true)\<close>
  (the sub-folders of a folder) and \<^verbatim>\<open>util.parseProperties\<close> are observations of the
  file system; which entry names \<^verbatim>\<open>util.filterJunk\<close> drops is the predicate \<open>isJunk\<close>.
\<close>

record env =
  readFileSync :: "path \<Rightarrow> jserror + string"
  readdirSync :: "path \<Rightarrow> jserror + string list"
  directoryExistsSync :: "path \<Rightarrow> bool"
  fileExistsSync :: "path \<Rightarrow> bool"
  readdirFolders :: "path \<Rightarrow> jserror + string list"
  globSync :: "path \<Rightarrow> path list"
  JSON_parse :: "string \<Rightarrow> jserror + json"
  parseProperties :: "path \<Rightarrow> jserror + (string \<rightharpoonup> string)"
  isJunk :: "string \<Rightarrow> bool"

text \<open>
  Modelled from the spec: \<^verbatim>\<open>util.filterJunk\<close> keeps, in their order, the entries of a
  directory listing that are not junk (\<^verbatim>\<open>.DS_Store\<close> on a Mac).
\<close>

definition filterJunk :: "env \<Rightarrow> string list \<Rightarrow> string list" where
  "filterJunk E files = filter (\<lambda>f. \<not> isJunk E f) files"


section \<open>Installed platforms (\<^verbatim>\<open>BoardManager\<close>)\<close>

text \<open>
  The object literal that \<^verbatim>\<open>getDefaultPlatforms\<close> and \<^verbatim>\<open>getManuallyInstalledPlatforms\<close>
  push. \<open>version\<close> is whatever the bundled index holds, so it is a JSON value.
\<close>

record installed_platform =
  packageName :: string
  architecture :: string
  version :: json
  rootBoardPath :: path
  defaultPlatform :: bool

subsection \<open>\<^verbatim>\<open>getDefaultPlatforms\<close>\<close>

text \<open>
  The loops of the \<^verbatim>\<open>try\<close> block. A step that throws leaves the loop with the error and
  with the entries pushed so far, which is what the \<^verbatim>\<open>catch\<close> finds in \<^verbatim>\<open>defaultPlatforms\<close>.
  \<^verbatim>\<open>path.join\<close> throws a \<^verbatim>\<open>TypeError\<close> on an argument that is not a string.
\<close>

definition defaultEntry ::
  "path \<Rightarrow> json \<Rightarrow> json \<Rightarrow> json \<Rightarrow> jserror + installed_platform" where
  "defaultEntry defaultPackagePath pkg platform v =
     (case getProp pkg ''name'' of
        Inl e \<Rightarrow> Inl e
      | Inr n \<Rightarrow>
         (case getProp platform ''architecture'' of
            Inl e \<Rightarrow> Inl e
          | Inr a \<Rightarrow>
             (case (n, a) of
                (Some (JStr pname), Some (JStr arch)) \<Rightarrow>
                  Inr \<lparr> packageName = pname, architecture = arch, version = v,
                        rootBoardPath = path_join defaultPackagePath [pname, arch],
                        defaultPlatform = True \<rparr>
              | _ \<Rightarrow> Inl TypeError)))"

fun defaultPlatformLoop ::
  "path \<Rightarrow> json \<Rightarrow> json list \<Rightarrow> installed_platform list
     \<Rightarrow> jserror option \<times> installed_platform list" where
  "defaultPlatformLoop dir pkg [] acc = (None, acc)"
| "defaultPlatformLoop dir pkg (platform # rest) acc =
     (case getProp platform ''version'' of
        Inl e \<Rightarrow> (Some e, acc)
      | Inr None \<Rightarrow> defaultPlatformLoop dir pkg rest acc
      | Inr (Some v) \<Rightarrow>
          if truthy v then
            (case defaultEntry dir pkg platform v of
               Inl e \<Rightarrow> (Some e, acc)
             | Inr entry \<Rightarrow> defaultPlatformLoop dir pkg rest (acc @ [entry]))
          else defaultPlatformLoop dir pkg rest acc)"

fun defaultPackageLoop ::
  "path \<Rightarrow> json list \<Rightarrow> installed_platform list
     \<Rightarrow> jserror option \<times> installed_platform list" where
  "defaultPackageLoop dir [] acc = (None, acc)"
| "defaultPackageLoop dir (pkg # rest) acc =
     (case getProp pkg ''platforms'' of
        Inl e \<Rightarrow> (Some e, acc)
      | Inr ps \<Rightarrow>
         (case iterate ps of
            Inl e \<Rightarrow> (Some e, acc)
          | Inr platforms \<Rightarrow>
             (case defaultPlatformLoop dir pkg platforms acc of
                (Some e, acc') \<Rightarrow> (Some e, acc')
              | (None, acc') \<Rightarrow> defaultPackageLoop dir rest acc')))"

text \<open>The body of the \<^verbatim>\<open>try\<close> block: the error thrown, if any, and \<^verbatim>\<open>defaultPlatforms\<close>.\<close>

definition getDefaultPlatforms_try ::
  "env \<Rightarrow> path \<Rightarrow> jserror option \<times> installed_platform list" where
  "getDefaultPlatforms_try E defaultPackagePath =
     (case readFileSync E (defaultPackagePath @ [''package_index_bundled.json'']) of
        Inl e \<Rightarrow> (Some e, [])
      | Inr packageBundled \<Rightarrow>
          if packageBundled = [] then (None, [])
          else
            (case JSON_parse E packageBundled of
               Inl e \<Rightarrow> (Some e, [])
             | Inr bundledObject \<Rightarrow>
                 if \<not> truthy bundledObject then (None, [])
                 else
                   (case getProp bundledObject ''packages'' of
                      Inl e \<Rightarrow> (Some e, [])
                    | Inr pk \<Rightarrow>
                        if \<not> truthy_opt pk then (None, [])
                        else
                          (case iterate pk of
                             Inl e \<Rightarrow> (Some e, [])
                           | Inr pkgs \<Rightarrow> defaultPackageLoop defaultPackagePath pkgs []))))"

text \<open>
  \<^verbatim>\<open>catch (ex) { }\<close> swallows whatever the block threw, and the function returns
  \<^verbatim>\<open>defaultPlatforms\<close>.
\<close>

definition getDefaultPlatforms ::
  "env \<Rightarrow> path \<Rightarrow> jserror + installed_platform list" where
  "getDefaultPlatforms E defaultPackagePath = Inr (snd (getDefaultPlatforms_try E defaultPackagePath))"

subsection \<open>\<^verbatim>\<open>getManuallyInstalledPlatforms\<close>\<close>

fun manualArchLoop ::
  "env \<Rightarrow> string \<Rightarrow> path \<Rightarrow> string list \<Rightarrow> installed_platform list
     \<Rightarrow> jserror + installed_platform list" where
  "manualArchLoop E pkgName archPath [] acc = Inr acc"
| "manualArchLoop E pkgName archPath (arch # rest) acc =
     (case readdirSync E (archPath @ [arch]) of
        Inl e \<Rightarrow> Inl e
      | Inr listing \<Rightarrow>
         (case filterJunk E listing of
            [] \<Rightarrow> manualArchLoop E pkgName archPath rest acc
          | v # vs \<Rightarrow>
              manualArchLoop E pkgName archPath rest
                (acc @ [\<lparr> packageName = pkgName, architecture = arch, version = JStr v,
                          rootBoardPath = archPath @ [arch, v],
                          defaultPlatform = False \<rparr>])))"

fun manualPackageLoop ::
  "env \<Rightarrow> path \<Rightarrow> string list \<Rightarrow> installed_platform list
     \<Rightarrow> jserror + installed_platform list" where
  "manualPackageLoop E packagePath [] acc = Inr acc"
| "manualPackageLoop E packagePath (pkgName # rest) acc =
     (let archPath = packagePath @ [''packages'', pkgName, ''hardware''] in
      if \<not> directoryExistsSync E archPath then manualPackageLoop E packagePath rest acc
      else
        (case readdirSync E archPath of
           Inl e \<Rightarrow> Inl e
         | Inr architectures \<Rightarrow>
            (case manualArchLoop E pkgName archPath (filterJunk E architectures) acc of
               Inl e \<Rightarrow> Inl e
             | Inr acc' \<Rightarrow> manualPackageLoop E packagePath rest acc')))"

definition getManuallyInstalledPlatforms ::
  "env \<Rightarrow> path \<Rightarrow> jserror + installed_platform list" where
  "getManuallyInstalledPlatforms E packagePath =
     (let rootPackagePath = packagePath @ [''packages''] in
      if \<not> directoryExistsSync E rootPackagePath then Inr []
      else
        (case readdirFolders E rootPackagePath of
           Inl e \<Rightarrow> Inl e
         | Inr dirs \<Rightarrow> manualPackageLoop E packagePath (filterJunk E dirs) []))"

subsection \<open>\<^verbatim>\<open>getInstalledPlatforms\<close>\<close>

definition samePlatform :: "installed_platform \<Rightarrow> installed_platform \<Rightarrow> bool" where
  "samePlatform p q \<longleftrightarrow> packageName p = packageName q \<and> architecture p = architecture q"

text \<open>
  \<^verbatim>\<open>find\<close> returns the first entry of \<^verbatim>\<open>installedPlatforms\<close> for the pair, and the three
  assignments change that entry where it stands.
\<close>

fun overwriteFound :: "installed_platform \<Rightarrow> installed_platform list \<Rightarrow> installed_platform list" where
  "overwriteFound plat [] = []"
| "overwriteFound plat (p # ps) =
     (if samePlatform p plat
      then p\<lparr> defaultPlatform := defaultPlatform plat, version := version plat,
              rootBoardPath := rootBoardPath plat \<rparr> # ps
      else p # overwriteFound plat ps)"

definition mergeStep :: "installed_platform list \<Rightarrow> installed_platform \<Rightarrow> installed_platform list" where
  "mergeStep installedPlatforms plat =
     (case find (\<lambda>p. samePlatform p plat) installedPlatforms of
        None \<Rightarrow> installedPlatforms @ [plat]
      | Some found \<Rightarrow> overwriteFound plat installedPlatforms)"

fun mergeManual :: "installed_platform list \<Rightarrow> installed_platform list \<Rightarrow> installed_platform list" where
  "mergeManual installedPlatforms [] = installedPlatforms"
| "mergeManual installedPlatforms (plat # rest) = mergeManual (mergeStep installedPlatforms plat) rest"

definition getInstalledPlatforms ::
  "env \<Rightarrow> path \<Rightarrow> path \<Rightarrow> jserror + installed_platform list" where
  "getInstalledPlatforms E defaultPackagePath packagePath =
     (case getDefaultPlatforms E defaultPackagePath of
        Inl e \<Rightarrow> Inl e
      | Inr installedPlatforms \<Rightarrow>
         (case getManuallyInstalledPlatforms E packagePath of
            Inl e \<Rightarrow> Inl e
          | Inr manuallyInstalled \<Rightarrow> Inr (mergeManual installedPlatforms manuallyInstalled)))"

section \<open>The board descriptor parser (\<^verbatim>\<open>parseBoardDescriptorFile\<close>)\<close>

text \<open>
  \<^verbatim>\<open>IBoard\<close>: the alias, the display name (optional, so \<open>None\<close> until a \<^verbatim>\<open>name\<close> line sets
  it), the parameters and the platform the board belongs to. The platform is an object
  the parser only stores, so its type is a parameter.
\<close>

record 'p IBoard =
  board :: string
  board_name :: "string option"
  parameters :: "string \<rightharpoonup> string"
  platform :: 'p

subsection \<open>Strings\<close>

text \<open>
  The descriptor is a string of 8-bit characters, which covers the ASCII text of a
  \<^verbatim>\<open>boards.txt\<close>. Of JavaScript's line terminators and white space (the classes behind
  \<^verbatim>\<open>.\<close>, \<^verbatim>\<open>\S\<close> and \<^verbatim>\<open>trim\<close>) these are the ones below U+0100.
\<close>

definition isLineTerminator :: "char \<Rightarrow> bool" where
  "isLineTerminator c \<longleftrightarrow> c = CHR 0x0A \<or> c = CHR 0x0D"

definition isWhiteSpace :: "char \<Rightarrow> bool" where
  "isWhiteSpace c \<longleftrightarrow>
     c \<in> set [CHR 0x09, CHR 0x0A, CHR 0x0B, CHR 0x0C, CHR 0x0D, CHR 0x20, CHR 0xA0]"

definition trim :: "string \<Rightarrow> string" where
  "trim s = rev (dropWhile isWhiteSpace (rev (dropWhile isWhiteSpace s)))"

definition startsWith :: "string \<Rightarrow> string \<Rightarrow> bool" where
  "startsWith s p \<longleftrightarrow> take (length p) s = p"

text \<open>
  The character class of \<^verbatim>\<open>/[\r|\r\n|\n]/\<close>: a carriage return, a vertical bar or a line
  feed.
\<close>

definition isLineSeparator :: "char \<Rightarrow> bool" where
  "isLineSeparator c \<longleftrightarrow> c = CHR 0x0D \<or> c = CHR ''|'' \<or> c = CHR 0x0A"

subsection \<open>\<^verbatim>\<open>boardLineRegex.exec\<close>\<close>

text \<open>
  \<^verbatim>\<open>/([^\.]+)\.(\S+)=(.+)/\<close>, matched the way a backtracking engine does.

  \<open>dotPlus\<close> is the greedy \<^verbatim>\<open>(.+)\<close> at the end of the pattern: every character up to the
  next line terminator.

  \<open>suffixAt n r\<close> tries \<^verbatim>\<open>(\S+)\<close> on \<open>r\<close> with \<open>n\<close> characters, then \<open>n - 1\<close>, down to one:
  the first length after which \<^verbatim>\<open>=\<close> and a non-empty \<^verbatim>\<open>(.+)\<close> follow wins.

  \<open>matchAt l\<close> is the attempt that starts at the first character of \<open>l\<close>: \<^verbatim>\<open>([^\.]+)\<close>
  takes every character before the first dot (a shorter choice is followed by a
  character that is not a dot, so backtracking into it never helps), and \<^verbatim>\<open>(\S+)\<close> starts
  from the longest run of characters that are not white space.

  \<open>boardLineRegex_exec\<close> is \<^verbatim>\<open>exec\<close> without anchors: the first start position, from the
  left, whose attempt matches. The result is the three groups \<^verbatim>\<open>match[1..3]\<close>; all three
  take part in every match, so \<^verbatim>\<open>match.length > 3\<close> holds whenever \<^verbatim>\<open>match\<close> is not \<^verbatim>\<open>null\<close>.
\<close>

definition dotPlus :: "string \<Rightarrow> string" where
  "dotPlus s = takeWhile (\<lambda>c. \<not> isLineTerminator c) s"

fun suffixAt :: "nat \<Rightarrow> string \<Rightarrow> (string \<times> string) option" where
  "suffixAt 0 r = None"
| "suffixAt (Suc n) r =
     (if Suc n < length r \<and> r ! Suc n = CHR ''='' \<and> dotPlus (drop (Suc (Suc n)) r) \<noteq> []
      then Some (take (Suc n) r, dotPlus (drop (Suc (Suc n)) r))
      else suffixAt n r)"

definition matchAt :: "string \<Rightarrow> (string \<times> string \<times> string) option" where
  "matchAt l =
     (let g1 = takeWhile (\<lambda>c. c \<noteq> CHR ''.'') l in
      if g1 = [] then None
      else
        (case dropWhile (\<lambda>c. c \<noteq> CHR ''.'') l of
           [] \<Rightarrow> None
         | dot # r \<Rightarrow>
            (case suffixAt (length (takeWhile (\<lambda>c. \<not> isWhiteSpace c) r)) r of
               None \<Rightarrow> None
             | Some (g2, g3) \<Rightarrow> Some (g1, g2, g3))))"

fun boardLineRegex_exec :: "string \<Rightarrow> (string \<times> string \<times> string) option" where
  "boardLineRegex_exec [] = None"
| "boardLineRegex_exec (c # cs) =
     (case matchAt (c # cs) of
        Some m \<Rightarrow> Some m
      | None \<Rightarrow> boardLineRegex_exec cs)"

subsection \<open>The loop over the lines\<close>

text \<open>
  The body of \<^verbatim>\<open>if (match && match.length > 3)\<close>: the board object of \<^verbatim>\<open>match[1]\<close> is looked
  up or created, and the line is stored in it. The object lives in the map, so changing
  it changes the map's entry.
\<close>

definition applyMatch ::
  "'p \<Rightarrow> (string \<rightharpoonup> 'p IBoard) \<Rightarrow> string \<times> string \<times> string \<Rightarrow> (string \<rightharpoonup> 'p IBoard)" where
  "applyMatch plat result m =
     (case m of (m1, m2, m3) \<Rightarrow>
        (let boardObject =
               (case result m1 of
                  None \<Rightarrow> \<lparr> board = m1, board_name = None, parameters = Map.empty, platform = plat \<rparr>
                | Some b \<Rightarrow> b)
         in if m2 = ''name''
            then result(m1 \<mapsto> boardObject\<lparr> board_name := Some (trim m3) \<rparr>)
            else result(m1 \<mapsto> boardObject\<lparr> parameters := (parameters boardObject)(m2 \<mapsto> m3) \<rparr>)))"

definition processLine :: "'p \<Rightarrow> (string \<rightharpoonup> 'p IBoard) \<Rightarrow> string \<Rightarrow> (string \<rightharpoonup> 'p IBoard)" where
  "processLine plat result line =
     (if startsWith line ''#'' \<or> startsWith line ''menu.'' then result
      else
        (case boardLineRegex_exec line of
           None \<Rightarrow> result
         | Some m \<Rightarrow> applyMatch plat result m))"

definition parseBoardDescriptorFile :: "string \<Rightarrow> 'p \<Rightarrow> (string \<rightharpoonup> 'p IBoard)" where
  "parseBoardDescriptorFile boardDescriptor plat =
     foldl (processLine plat) Map.empty (splitOn isLineSeparator boardDescriptor)"

text \<open>
  The matches the loop stores, in the order of the lines: \<^verbatim>\<open>match\<close> for every line that
  passes the guard and on which \<^verbatim>\<open>boardLineRegex.exec\<close> succeeds.
\<close>

definition regexMatches :: "string list \<Rightarrow> (string \<times> string \<times> string) list" where
  "regexMatches ls =
     List.map_filter boardLineRegex_exec
       (filter (\<lambda>line. \<not> (startsWith line ''#'' \<or> startsWith line ''menu.'')) ls)"


section \<open>The package index (\<^verbatim>\<open>BoardManager.parsePackageIndex\<close>)\<close>

text \<open>
  A package index as \<^verbatim>\<open>JSON.parse\<close> gives it and as the interfaces \<^verbatim>\<open>IPackage\<close> and
  \<^verbatim>\<open>IPlatform\<close> type it: packages with a name and platform entries, each entry with an
  architecture, a version and the boards it supports. The fields \<^verbatim>\<open>parsePackageIndex\<close>
  neither reads nor writes (\<^verbatim>\<open>category\<close>, \<^verbatim>\<open>url\<close>, \<^verbatim>\<open>help\<close>, ...) are left out.
\<close>

record index_board =
  name :: string

record index_platform =
  entry_architecture :: string
  entry_version :: string
  entry_boards :: "index_board list"

record index_package =
  package_name :: string
  package_platforms :: "index_platform list"

record package_index =
  packages :: "index_package list"

text \<open>
  A platform of \<^verbatim>\<open>this._platforms\<close>: the first entry of its package and architecture, after
  \<^verbatim>\<open>plat.package = pkg\<close>, \<^verbatim>\<open>plat.versions = [plat.version]\<close> and \<^verbatim>\<open>plat.version = ""\<close>. Of the
  package object only the name is ever read (\<^verbatim>\<open>_plat.package.name\<close>), so \<open>plat_package\<close> is
  that name.
\<close>

record IPlatform =
  plat_architecture :: string
  plat_version :: string
  plat_versions :: "string list"
  plat_boards :: "index_board list"
  plat_package :: string

text \<open>
  Modelled from the spec: \<^verbatim>\<open>util.union(a, b, compare)\<close> is not among the sources. The spec
  says that board lists are unioned: the result holds the elements of \<open>a\<close>, followed by
  each element of \<open>b\<close> that compares equal to no element already there.
\<close>

fun util_union :: "'a list \<Rightarrow> 'a list \<Rightarrow> ('a \<Rightarrow> 'a \<Rightarrow> bool) \<Rightarrow> 'a list" where
  "util_union a [] compare = a"
| "util_union a (item # b) compare =
     (if list_ex (\<lambda>element. compare item element) a
      then util_union a b compare
      else util_union (a @ [item]) b compare)"

definition sameBoardName :: "index_board \<Rightarrow> index_board \<Rightarrow> bool" where
  "sameBoardName a b \<longleftrightarrow> name a = name b"

text \<open>
  The body of the inner \<^verbatim>\<open>forEach\<close>. \<^verbatim>\<open>find\<close> returns the first platform of the same
  architecture and package name; the two assignments change that platform where it
  stands in \<^verbatim>\<open>this._platforms\<close>.
\<close>

definition isAddedPlatform :: "string \<Rightarrow> index_platform \<Rightarrow> IPlatform \<Rightarrow> bool" where
  "isAddedPlatform pkgName plat p \<longleftrightarrow>
     plat_architecture p = entry_architecture plat \<and> plat_package p = pkgName"

fun mergeInto :: "string \<Rightarrow> index_platform \<Rightarrow> IPlatform list \<Rightarrow> IPlatform list" where
  "mergeInto pkgName plat [] = []"
| "mergeInto pkgName plat (p # ps) =
     (if isAddedPlatform pkgName plat p
      then p\<lparr> plat_boards := util_union (plat_boards p) (entry_boards plat) sameBoardName,
              plat_versions := plat_versions p @ [entry_version plat] \<rparr> # ps
      else p # mergeInto pkgName plat ps)"

definition addPlatform :: "string \<Rightarrow> IPlatform list \<Rightarrow> index_platform \<Rightarrow> IPlatform list" where
  "addPlatform pkgName platforms plat =
     (case find (isAddedPlatform pkgName plat) platforms of
        Some addedPlatform \<Rightarrow> mergeInto pkgName plat platforms
      | None \<Rightarrow>
          platforms @ [\<lparr> plat_architecture = entry_architecture plat, plat_version = [],
                         plat_versions = [entry_version plat], plat_boards = entry_boards plat,
                         plat_package = pkgName \<rparr>])"

text \<open>
  \<^verbatim>\<open>parsePackageIndex\<close> takes \<^verbatim>\<open>this._platforms\<close> to its new value.
  (\<^verbatim>\<open>this._packages.concat(rawModel.packages)\<close> builds an array and drops it.)
\<close>

definition parsePackageIndex :: "package_index \<Rightarrow> IPlatform list \<Rightarrow> IPlatform list" where
  "parsePackageIndex rawModel platforms =
     foldl (\<lambda>ps pkg. foldl (addPlatform (package_name pkg)) ps (package_platforms pkg))
       platforms (packages rawModel)"

text \<open>
  \<^verbatim>\<open>loadPackages\<close> starts from \<^verbatim>\<open>this._platforms = []\<close> and parses the index files one after
  the other.
\<close>

definition loadIndexFiles :: "package_index list \<Rightarrow> IPlatform list" where
  "loadIndexFiles indexFiles = foldl (\<lambda>ps rawModel. parsePackageIndex rawModel ps) [] indexFiles"


section \<open>The web bridge (\<^verbatim>\<open>ArduinoContentProvider.installPackage\<close>)\<close>

text \<open>
  What the handler sends: \<^verbatim>\<open>res.status(n).send(text)\<close> is a response with the status \<open>n\<close>
  and a text, \<^verbatim>\<open>res.json(obj)\<close> a response with the status 200 and a JSON body.
\<close>

datatype response_body = Text string | JsonBody json

record response =
  status :: nat
  body :: response_body

text \<open>
  What \<^verbatim>\<open>installBoard\<close> throws, as the message shows it: the renderings of \<^verbatim>\<open>error.code\<close>
  and \<^verbatim>\<open>error.stderr\<close>.
\<close>

datatype install_error = InstallError (err_code: string) (err_stderr: string)

text \<open>
  \<^verbatim>\<open>installPackage\<close> on the request body \<^verbatim>\<open>req.body\<close>. \<^verbatim>\<open>this._arduinoApp.installBoard\<close> is code
  of another module: the parameter \<open>installBoard\<close> tells, for the arguments of a call,
  what the awaited call throws (\<open>None\<close> when it succeeds). The result is the response
  sent and the list of the calls of \<^verbatim>\<open>installBoard\<close> made, or the error thrown before any
  response (reading a property of a \<^verbatim>\<open>null\<close> body).
\<close>

definition badInstallRequest :: response where
  "badInstallRequest =
     \<lparr> status = 400, body = Text ''BAD Request! Missing { packageName, arch } parameters!'' \<rparr>"

definition installPackage ::
  "(json \<Rightarrow> json \<Rightarrow> json option \<Rightarrow> install_error option) \<Rightarrow> json
     \<Rightarrow> jserror + response \<times> (json \<times> json \<times> json option) list" where
  "installPackage installBoard reqBody =
     (case getProp reqBody ''packageName'' of
        Inl e \<Rightarrow> Inl e
      | Inr None \<Rightarrow> Inr (badInstallRequest, [])
      | Inr (Some pkgName) \<Rightarrow>
          if \<not> truthy pkgName then Inr (badInstallRequest, [])
          else
            (case getProp reqBody ''arch'' of
               Inl e \<Rightarrow> Inl e
             | Inr None \<Rightarrow> Inr (badInstallRequest, [])
             | Inr (Some arch) \<Rightarrow>
                 if \<not> truthy arch then Inr (badInstallRequest, [])
                 else
                   (case getProp reqBody ''version'' of
                      Inl e \<Rightarrow> Inl e
                    | Inr ver \<Rightarrow>
                       (case installBoard pkgName arch ver of
                          None \<Rightarrow>
                            Inr (\<lparr> status = 200, body = JsonBody (JObj [(''status'', JStr ''OK'')]) \<rparr>,
                                 [(pkgName, arch, ver)])
                        | Some error \<Rightarrow>
                            Inr (\<lparr> status = 500,
                                   body = Text (''Install board failed with message \"code:'' @
                                     err_code error @ '', err:'' @ err_stderr error @ ''\"'') \<rparr>,
                                 [(pkgName, arch, ver)])))))"


section \<open>The example tree (\<^verbatim>\<open>ExampleManager\<close>)\<close>

text \<open>
  \<^verbatim>\<open>IExampleNode\<close> as the caller receives it: a name, a path, the leaf flag and the
  children. The nodes that \<^verbatim>\<open>parseExamplesFromLibrary\<close> builds have the same shape without
  a leaf flag (\<open>None\<close>).
\<close>

datatype example_tree =
  ExampleNode (tree_name: string) (tree_path: path) (tree_isLeaf: "bool option")
    (tree_children: "example_tree list")

text \<open>
  While the tree is built, a node is shared between \<^verbatim>\<open>exampleMap\<close> and the \<^verbatim>\<open>children\<close>
  array of its parent, and \<^verbatim>\<open>children.push\<close> changes it in place. So the nodes live in a
  store, addressed by their position, and \<^verbatim>\<open>children\<close> holds addresses. The root node
  \<^verbatim>\<open>{children: []}\<close> has no name, no path and no leaf flag.
\<close>

record example_node =
  node_name :: string
  node_path :: path
  isLeaf :: "bool option"
  children :: "nat list"

record parse_state =
  store :: "example_node list"
  exampleMap :: "path \<rightharpoonup> nat"

text \<open>
  On lists of segments, \<^verbatim>\<open>path.dirname\<close> drops the last segment, \<^verbatim>\<open>path.basename\<close> is the
  last segment, and \<^verbatim>\<open>path.resolve\<close> changes nothing.
\<close>

definition dirname :: "path \<Rightarrow> path" where
  "dirname p = butlast p"

definition basename :: "path \<Rightarrow> string" where
  "basename p = (if p = [] then [] else last p)"

definition endsWith :: "string \<Rightarrow> string \<Rightarrow> bool" where
  "endsWith s suffix \<longleftrightarrow>
     length suffix \<le> length s \<and> drop (length s - length suffix) s = suffix"

definition isExampleFolder :: "env \<Rightarrow> path \<Rightarrow> jserror + bool" where
  "isExampleFolder E dir =
     (case readdirSync E dir of
        Inl e \<Rightarrow> Inl e
      | Inr items \<Rightarrow>
          Inr (find (\<lambda>item. fileExistsSync E (dir @ [item]) \<and> endsWith item ''.ino'') items \<noteq> None))"

text \<open>
  The body of \<^verbatim>\<open>if (parentExample && !parentExample.isLeaf)\<close>: the new node gets the next
  address, \<^verbatim>\<open>exampleMap\<close> maps its path to it, and the parent at \<open>pa\<close> gets it as its last
  child.
\<close>

definition addExample :: "parse_state \<Rightarrow> nat \<Rightarrow> example_node \<Rightarrow> parse_state" where
  "addExample st pa currentExample =
     (let parentExample = store st ! pa in
      \<lparr> store = (store st)[pa := parentExample\<lparr> children := children parentExample @ [length (store st)] \<rparr>]
                  @ [currentExample],
        exampleMap = (exampleMap st)(node_path currentExample \<mapsto> length (store st)) \<rparr>)"

fun exampleLoop :: "env \<Rightarrow> path list \<Rightarrow> parse_state \<Rightarrow> jserror + parse_state" where
  "exampleLoop E [] st = Inr st"
| "exampleLoop E (folder # rest) st =
     (case exampleMap st (dirname folder) of
        None \<Rightarrow> exampleLoop E rest st
      | Some pa \<Rightarrow>
          if isLeaf (store st ! pa) = Some True then exampleLoop E rest st
          else
            (case isExampleFolder E folder of
               Inl e \<Rightarrow> Inl e
             | Inr leaf \<Rightarrow>
                 exampleLoop E rest
                   (addExample st pa
                      \<lparr> node_name = basename folder, node_path = folder, isLeaf = Some leaf,
                        children = [] \<rparr>)))"

text \<open>
  The tree below the node at an address, which is what the caller sees of the store.
  A child is created after its parent, so its address is larger and the function
  terminates; the filter says so and drops nothing from a store that \<^verbatim>\<open>parseExamples\<close>
  has built (\<open>reify_children\<close> below).
\<close>

function reify :: "example_node list \<Rightarrow> nat \<Rightarrow> example_tree" where
  "reify st a =
     ExampleNode (node_name (st ! a)) (node_path (st ! a)) (isLeaf (st ! a))
       (map (reify st) (filter (\<lambda>c. a < c \<and> c < length st) (children (st ! a))))"
  by pat_completeness auto
termination
  by (relation "measure (\<lambda>(st, a). length st - a)") auto

text \<open>
  \<^verbatim>\<open>parseExamples\<close>: \<^verbatim>\<open>glob.sync\<close> lists the folders below \<^verbatim>\<open>rootPath\<close>, the root first; with no
  folder at all \<^verbatim>\<open>path.resolve(exampleFolders[0])\<close> throws a \<^verbatim>\<open>TypeError\<close>.
\<close>

definition rootNode :: example_node where
  "rootNode = \<lparr> node_name = [], node_path = [], isLeaf = None, children = [] \<rparr>"

definition parseExamples :: "env \<Rightarrow> path \<Rightarrow> jserror + example_tree list" where
  "parseExamples E rootPath =
     (if \<not> directoryExistsSync E rootPath then Inr []
      else
        (case globSync E rootPath of
           [] \<Rightarrow> Inl TypeError
         | first # exampleFolders \<Rightarrow>
            (case exampleLoop E exampleFolders \<lparr> store = [rootNode], exampleMap = [first \<mapsto> 0] \<rparr> of
               Inl e \<Rightarrow> Inl e
             | Inr st \<Rightarrow> Inr (map (reify (store st)) (children (store st ! 0))))))"

subsection \<open>\<^verbatim>\<open>parseExamplesFromLibrary\<close>\<close>

text \<open>
  \<^verbatim>\<open>s.indexOf(t)\<close> on strings: the first position at which \<open>t\<close> occurs in \<open>s\<close>, or \<open>-1\<close>.
\<close>

fun indexOfFrom :: "int \<Rightarrow> string \<Rightarrow> string \<Rightarrow> int" where
  "indexOfFrom i [] t = (if t = [] then i else -1)"
| "indexOfFrom i (c # s) t = (if startsWith (c # s) t then i else indexOfFrom (i + 1) s t)"

definition indexOf :: "string \<Rightarrow> string \<Rightarrow> int" where
  "indexOf s t = indexOfFrom 0 s t"

text \<open>
  \<^verbatim>\<open>isSupported\<close>. \<open>targetArch\<close> is \<^verbatim>\<open>currentBoard.platform.architecture\<close>, or \<open>None\<close> when no
  board is selected; \<open>architectures\<close> is \<^verbatim>\<open>properties.architectures\<close>, \<open>None\<close> when the
  properties have no such key. \<^verbatim>\<open>!architectures\<close> holds for \<^verbatim>\<open>undefined\<close> and for the empty
  string.
\<close>

definition isSupported :: "string option \<Rightarrow> string option \<Rightarrow> bool" where
  "isSupported targetArch architectures =
     (case architectures of
        None \<Rightarrow> False
      | Some a \<Rightarrow>
          if a = [] then False
          else
            (case targetArch of
               None \<Rightarrow> True
             | Some arch \<Rightarrow> indexOf a arch \<ge> 0 \<or> indexOf a ''*'' \<ge> 0))"

definition libraryNode :: "path \<Rightarrow> string \<Rightarrow> example_tree list \<Rightarrow> example_tree" where
  "libraryNode rootPath library cs = ExampleNode library (rootPath @ [library]) None cs"

text \<open>The \<^verbatim>\<open>for\<close> loop over the libraries, on the pair of \<^verbatim>\<open>examples\<close> and \<^verbatim>\<open>inCompatibles\<close>.\<close>

fun libraryLoop ::
  "env \<Rightarrow> string option \<Rightarrow> path \<Rightarrow> bool \<Rightarrow> string list
     \<Rightarrow> example_tree list \<times> example_tree list \<Rightarrow> jserror + example_tree list \<times> example_tree list" where
  "libraryLoop E targetArch rootPath needParsingIncompatible [] acc = Inr acc"
| "libraryLoop E targetArch rootPath needParsingIncompatible (library # rest) acc =
     (if fileExistsSync E (rootPath @ [library, ''library.properties'']) then
        (case parseProperties E (rootPath @ [library, ''library.properties'']) of
           Inl e \<Rightarrow> Inl e
         | Inr properties \<Rightarrow>
            (case parseExamples E (rootPath @ [library, ''examples'']) of
               Inl e \<Rightarrow> Inl e
             | Inr cs \<Rightarrow>
                 if cs \<noteq> [] then
                   if isSupported targetArch (properties ''architectures'') then
                     libraryLoop E targetArch rootPath needParsingIncompatible rest
                       (fst acc @ [libraryNode rootPath library cs], snd acc)
                   else if needParsingIncompatible then
                     libraryLoop E targetArch rootPath needParsingIncompatible rest
                       (fst acc, snd acc @ [libraryNode rootPath library cs])
                   else libraryLoop E targetArch rootPath needParsingIncompatible rest acc
                 else libraryLoop E targetArch rootPath needParsingIncompatible rest acc))
      else libraryLoop E targetArch rootPath needParsingIncompatible rest acc)"

definition incompatibleGroup :: "bool \<Rightarrow> example_tree list \<Rightarrow> example_tree list" where
  "incompatibleGroup needParsingIncompatible inCompatibles =
     (if needParsingIncompatible \<and> inCompatibles \<noteq> []
      then [ExampleNode ''INCOMPATIBLE'' [''INCOMPATIBLE''] None inCompatibles]
      else [])"

definition parseExamplesFromLibrary ::
  "env \<Rightarrow> string option \<Rightarrow> path \<Rightarrow> bool \<Rightarrow> jserror + example_tree list" where
  "parseExamplesFromLibrary E targetArch rootPath needParsingIncompatible =
     (case readdirFolders E rootPath of
        Inl e \<Rightarrow> Inl e
      | Inr libraries \<Rightarrow>
         (case libraryLoop E targetArch rootPath needParsingIncompatible libraries ([], []) of
            Inl e \<Rightarrow> Inl e
          | Inr acc \<Rightarrow> Inr (fst acc @ incompatibleGroup needParsingIncompatible (snd acc))))"


section \<open>Vocabulary of the statements\<close>

subsection \<open>The bundled index\<close>

text \<open>
  The file \<^verbatim>\<open>getDefaultPlatforms\<close> reads, and the packages and platform entries a parsed
  index holds: what the two \<^verbatim>\<open>for ... of\<close> loops run over when nothing throws.
\<close>

definition bundledIndexFile :: "path \<Rightarrow> path" where
  "bundledIndexFile defaultPackagePath = defaultPackagePath @ [''package_index_bundled.json'']"

definition indexPackages :: "json \<Rightarrow> json list" where
  "indexPackages obj =
     (case getProp obj ''packages'' of
        Inl e \<Rightarrow> []
      | Inr pk \<Rightarrow> (case iterate pk of Inl e \<Rightarrow> [] | Inr pkgs \<Rightarrow> pkgs))"

definition packagePlatforms :: "json \<Rightarrow> json list" where
  "packagePlatforms pkg =
     (case getProp pkg ''platforms'' of
        Inl e \<Rightarrow> []
      | Inr ps \<Rightarrow> (case iterate ps of Inl e \<Rightarrow> [] | Inr platforms \<Rightarrow> platforms))"

text \<open>
  An entry \<open>p\<close> as \<^verbatim>\<open>getDefaultPlatforms\<close> builds it from the platform entry \<open>plf\<close> of
  the package \<open>pkg\<close>.
\<close>

definition fromIndex :: "path \<Rightarrow> json \<Rightarrow> json \<Rightarrow> installed_platform \<Rightarrow> bool" where
  "fromIndex dir pkg plf p \<longleftrightarrow>
     getProp plf ''version'' = Inr (Some (version p)) \<and>
     getProp pkg ''name'' = Inr (Some (JStr (packageName p))) \<and>
     getProp plf ''architecture'' = Inr (Some (JStr (architecture p))) \<and>
     rootBoardPath p = path_join dir [packageName p, architecture p] \<and>
     defaultPlatform p \<and> truthy (version p)"

subsection \<open>The user's package directory\<close>

text \<open>
  The folder \<^verbatim>\<open>packages/<package>/hardware\<close>, the entries of a folder that are not junk
  (none when the listing fails), and the (package, architecture) folders that
  \<^verbatim>\<open>getManuallyInstalledPlatforms\<close> visits: the non-junk entries of the \<^verbatim>\<open>hardware\<close> folder
  of every non-junk package folder that has one.
\<close>

definition hardwarePath :: "path \<Rightarrow> string \<Rightarrow> path" where
  "hardwarePath packagePath pkgName = packagePath @ [''packages'', pkgName, ''hardware'']"

definition nonJunkEntries :: "env \<Rightarrow> path \<Rightarrow> string list" where
  "nonJunkEntries E p = (case readdirSync E p of Inl e \<Rightarrow> [] | Inr listing \<Rightarrow> filterJunk E listing)"

definition manualFolders :: "env \<Rightarrow> path \<Rightarrow> (string \<times> string) list" where
  "manualFolders E packagePath =
     (if \<not> directoryExistsSync E (packagePath @ [''packages'']) then []
      else
        (case readdirFolders E (packagePath @ [''packages'']) of
           Inl e \<Rightarrow> []
         | Inr dirs \<Rightarrow>
             concat (map (\<lambda>pkgName.
                       if directoryExistsSync E (hardwarePath packagePath pkgName)
                       then map (Pair pkgName) (nonJunkEntries E (hardwarePath packagePath pkgName))
                       else [])
                     (filterJunk E dirs))))"

text \<open>
  Every directory listing the function asks for succeeds: \<^verbatim>\<open>fs.readdirSync\<close> throws on a
  path that is not a directory, and nothing in \<^verbatim>\<open>getManuallyInstalledPlatforms\<close> catches it.
\<close>

definition listingsSucceed :: "env \<Rightarrow> path \<Rightarrow> bool" where
  "listingsSucceed E packagePath \<longleftrightarrow>
     (directoryExistsSync E (packagePath @ [''packages'']) \<longrightarrow>
        (\<exists>dirs. readdirFolders E (packagePath @ [''packages'']) = Inr dirs \<and>
           (\<forall>pkgName\<in>set (filterJunk E dirs).
              directoryExistsSync E (hardwarePath packagePath pkgName) \<longrightarrow>
                (\<exists>archs. readdirSync E (hardwarePath packagePath pkgName) = Inr archs \<and>
                   (\<forall>arch\<in>set (filterJunk E archs).
                      \<exists>listing. readdirSync E (hardwarePath packagePath pkgName @ [arch]) = Inr listing)))))"

text \<open>The platform pushed for an architecture folder whose first non-junk entry is \<open>v\<close>.\<close>

definition manualEntry :: "path \<Rightarrow> string \<Rightarrow> string \<Rightarrow> string \<Rightarrow> installed_platform" where
  "manualEntry packagePath pkgName arch v =
     \<lparr> packageName = pkgName, architecture = arch, version = JStr v,
       rootBoardPath = hardwarePath packagePath pkgName @ [arch, v], defaultPlatform = False \<rparr>"

definition entriesAt :: "env \<Rightarrow> path \<Rightarrow> string \<Rightarrow> string \<Rightarrow> installed_platform list" where
  "entriesAt E packagePath pkgName arch =
     (case nonJunkEntries E (hardwarePath packagePath pkgName @ [arch]) of
        [] \<Rightarrow> []
      | v # vs \<Rightarrow> [manualEntry packagePath pkgName arch v])"

definition packageEntries :: "env \<Rightarrow> path \<Rightarrow> string \<Rightarrow> installed_platform list" where
  "packageEntries E packagePath pkgName =
     (if directoryExistsSync E (hardwarePath packagePath pkgName)
      then concat (map (entriesAt E packagePath pkgName) (nonJunkEntries E (hardwarePath packagePath pkgName)))
      else [])"

subsection \<open>Merging the two lists\<close>

text \<open>
  The (packageName, architecture) pair of an entry, and the manually installed entry for
  a pair: the last one of the list, which is the one whose fields the loop leaves in the
  result.
\<close>

definition platformKey :: "installed_platform \<Rightarrow> string \<times> string" where
  "platformKey p = (packageName p, architecture p)"

definition manualFor :: "installed_platform list \<Rightarrow> string \<times> string \<Rightarrow> installed_platform option" where
  "manualFor manual k =
     (let ms = filter (\<lambda>m. platformKey m = k) manual in if ms = [] then None else Some (last ms))"

definition mergedInv :: "installed_platform list \<Rightarrow> installed_platform list \<Rightarrow> installed_platform list \<Rightarrow> bool" where
  "mergedInv defaults manual R \<longleftrightarrow>
     distinct (map platformKey R) \<and>
     set (map platformKey R) = set (map platformKey defaults) \<union> set (map platformKey manual) \<and>
     (\<forall>p\<in>set R.
        case manualFor manual (platformKey p) of
          Some m \<Rightarrow> version p = version m \<and> rootBoardPath p = rootBoardPath m \<and> defaultPlatform p = defaultPlatform m
        | None \<Rightarrow> p \<in> set defaults)"


subsection \<open>Board descriptors\<close>

text \<open>
  The lines of a descriptor are the pieces between its line breaks. A line is ignored
  when it starts with \<^verbatim>\<open>#\<close> or with \<^verbatim>\<open>menu.\<close>.
\<close>

definition isLineBreak :: "char \<Rightarrow> bool" where
  "isLineBreak c \<longleftrightarrow> c = CHR 0x0D \<or> c = CHR 0x0A"

definition descriptorLines :: "string \<Rightarrow> string list" where
  "descriptorLines boardDescriptor = splitOn isLineBreak boardDescriptor"

definition ignoredLine :: "string \<Rightarrow> bool" where
  "ignoredLine line \<longleftrightarrow> startsWith line ''#'' \<or> startsWith line ''menu.''"

text \<open>
  A line read as \<^verbatim>\<open>prefix.suffix=value\<close>: the prefix is the text before the first dot, the
  suffix the text between that dot and the next \<^verbatim>\<open>=\<close>, and the value the rest of the line.
  The line has this form when the dot and the \<^verbatim>\<open>=\<close> are there and none of the three parts
  is empty. This reading does not use the parser's regular expression.
\<close>

definition lineFields :: "string \<Rightarrow> (string \<times> string \<times> string) option" where
  "lineFields line =
     (let prefix = takeWhile (\<lambda>c. c \<noteq> CHR ''.'') line;
          afterDot = drop (Suc (length prefix)) line;
          suffix = takeWhile (\<lambda>c. c \<noteq> CHR ''='') afterDot;
          val = drop (Suc (length suffix)) afterDot
      in if length prefix < length line \<and> length suffix < length afterDot \<and>
            prefix \<noteq> [] \<and> suffix \<noteq> [] \<and> val \<noteq> []
         then Some (prefix, suffix, val) else None)"

text \<open>
  A well-formed line either lacks a dot or a \<^verbatim>\<open>=\<close>, or has the form
  \<^verbatim>\<open>prefix.suffix=value\<close> with a suffix that holds no white space and a value that holds no
  \<^verbatim>\<open>=\<close> before its first white space. A well-formed descriptor holds no vertical bar, and
  its lines that are not ignored are well-formed. The entries of a descriptor are the
  (prefix, suffix, value) triples of its lines that are not ignored and have the form
  \<^verbatim>\<open>prefix.suffix=value\<close>, in the order of the lines.
\<close>

definition wellFormedLine :: "string \<Rightarrow> bool" where
  "wellFormedLine line \<longleftrightarrow>
     CHR ''.'' \<notin> set line \<or> CHR ''='' \<notin> set line \<or>
     (case lineFields line of
        None \<Rightarrow> False
      | Some (prefix, suffix, val) \<Rightarrow>
          list_all (\<lambda>c. \<not> isWhiteSpace c) suffix \<and>
          CHR ''='' \<notin> set (takeWhile (\<lambda>c. \<not> isWhiteSpace c) val))"

definition wellFormedDescriptor :: "string \<Rightarrow> bool" where
  "wellFormedDescriptor boardDescriptor \<longleftrightarrow>
     CHR ''|'' \<notin> set boardDescriptor \<and>
     list_all wellFormedLine (filter (\<lambda>l. \<not> ignoredLine l) (descriptorLines boardDescriptor))"



text \<open>
  What the entries say about the board \<open>p\<close>: its display name is the trimmed value of
  its last \<^verbatim>\<open>name\<close> entry, and the parameter \<open>s\<close> is the value, as it stands, of its last
  entry with the suffix \<open>s\<close>. A later line for the same key replaces an earlier one.
\<close>

definition lastValue :: "'a list \<Rightarrow> 'a option" where
  "lastValue xs = (if xs = [] then None else Some (last xs))"

definition displayName :: "(string \<times> string \<times> string) list \<Rightarrow> string \<Rightarrow> string option" where
  "displayName es p =
     lastValue (map (\<lambda>e. trim (snd (snd e))) (filter (\<lambda>e. fst e = p \<and> fst (snd e) = ''name'') es))"

definition storedParameter ::
  "(string \<times> string \<times> string) list \<Rightarrow> string \<Rightarrow> string \<Rightarrow> string option" where
  "storedParameter es p s =
     (if s = ''name'' then None
      else lastValue (map (\<lambda>e. snd (snd e)) (filter (\<lambda>e. fst e = p \<and> fst (snd e) = s) es)))"

text \<open>
  The registry \<open>R\<close> holds exactly the boards of the entries \<open>es\<close>, each under its own
  alias, with the platform \<open>plat\<close> and with the name and the parameters the entries say.
\<close>

definition registryInv :: "'p \<Rightarrow> (string \<times> string \<times> string) list \<Rightarrow> (string \<rightharpoonup> 'p IBoard) \<Rightarrow> bool" where
  "registryInv plat es R \<longleftrightarrow>
     (\<forall>p. case R p of
        None \<Rightarrow> p \<notin> fst ` set es
      | Some b \<Rightarrow> p \<in> fst ` set es \<and> board b = p \<and> platform b = plat \<and>
                 board_name b = displayName es p \<and> parameters b = storedParameter es p)"

text \<open>Lines joined by line feeds, to write descriptors down.\<close>

definition unlines :: "string list \<Rightarrow> string" where
  "unlines ls = concat (map (\<lambda>l. l @ [CHR 0x0A]) ls)"


subsection \<open>Package indexes\<close>

text \<open>
  The platform entries of a list of index files in the order \<^verbatim>\<open>parsePackageIndex\<close> meets
  them, each with the name of its package; the (package name, architecture) pair of an
  entry and of a platform; and the entries merged into the platform of a pair.
\<close>

definition indexEntries :: "package_index list \<Rightarrow> (string \<times> index_platform) list" where
  "indexEntries indexFiles =
     concat (map (\<lambda>rawModel.
       concat (map (\<lambda>pkg. map (Pair (package_name pkg)) (package_platforms pkg)) (packages rawModel)))
       indexFiles)"

definition entryKey :: "string \<times> index_platform \<Rightarrow> string \<times> string" where
  "entryKey e = (fst e, entry_architecture (snd e))"

definition platKey :: "IPlatform \<Rightarrow> string \<times> string" where
  "platKey p = (plat_package p, plat_architecture p)"

definition entriesFor :: "(string \<times> index_platform) list \<Rightarrow> string \<times> string \<Rightarrow> index_platform list" where
  "entriesFor es k = map snd (filter (\<lambda>e. entryKey e = k) es)"

text \<open>The board list of a platform merged from the entries \<open>ps\<close>, first to last.\<close>

definition unionBoards :: "index_platform list \<Rightarrow> index_board list" where
  "unionBoards ps =
     (case ps of
        [] \<Rightarrow> []
      | first # later \<Rightarrow>
          foldl (\<lambda>bs plat. util_union bs (entry_boards plat) sameBoardName) (entry_boards first) later)"

definition platformsInv :: "(string \<times> index_platform) list \<Rightarrow> IPlatform list \<Rightarrow> bool" where
  "platformsInv es platforms \<longleftrightarrow>
     distinct (map platKey platforms) \<and>
     set (map platKey platforms) = set (map entryKey es) \<and>
     (\<forall>p\<in>set platforms.
        plat_versions p = map entry_version (entriesFor es (platKey p)) \<and>
        plat_boards p = unionBoards (entriesFor es (platKey p)) \<and>
        plat_version p = [])"


subsection \<open>Example trees\<close>

text \<open>
  The nodes of a tree, the tree itself first; and the store of \<^verbatim>\<open>parseExamples\<close> as the
  loop keeps it: a leaf has no children, a child has a larger address than its parent,
  and \<^verbatim>\<open>exampleMap\<close> holds addresses of the store.
\<close>

fun subtrees :: "example_tree \<Rightarrow> example_tree list" where
  "subtrees (ExampleNode n p l cs) = ExampleNode n p l cs # concat (map subtrees cs)"

definition leafFree :: "example_tree \<Rightarrow> bool" where
  "leafFree t \<longleftrightarrow> (\<forall>n\<in>set (subtrees t). tree_isLeaf n = Some True \<longrightarrow> tree_children n = [])"

definition storeInv :: "parse_state \<Rightarrow> bool" where
  "storeInv st \<longleftrightarrow>
     (\<forall>a<length (store st). isLeaf (store st ! a) = Some True \<longrightarrow> children (store st ! a) = []) \<and>
     (\<forall>a<length (store st). \<forall>c\<in>set (children (store st ! a)). a < c \<and> c < length (store st)) \<and>
     (\<forall>p a. exampleMap st p = Some a \<longrightarrow> a < length (store st)) \<and>
     store st \<noteq> []"

text \<open>
  The architectures an \<^verbatim>\<open>architectures\<close> field names: the items of the comma-separated
  list, without the blanks around them.
\<close>

definition architectureList :: "string \<Rightarrow> string list" where
  "architectureList architectures = map trim (splitOn (\<lambda>c. c = CHR '','') architectures)"

text \<open>\<open>t\<close> occurs in \<open>s\<close>: what \<^verbatim>\<open>s.indexOf(t) >= 0\<close> tests.\<close>

definition occursIn :: "string \<Rightarrow> string \<Rightarrow> bool" where
  "occursIn t s \<longleftrightarrow> (\<exists>pre post. s = pre @ t @ post)"


text \<open>
  A library folder as \<^verbatim>\<open>parseExamplesFromLibrary\<close> sees it: its properties file, the
  \<^verbatim>\<open>architectures\<close> value of its properties, its example trees, and its node in the
  listing. A library \<open>hasExamples\<close> when it has a properties file and at least one example
  tree; only such a library is listed at all.
\<close>

definition propertiesFile :: "path \<Rightarrow> string \<Rightarrow> path" where
  "propertiesFile rootPath library = rootPath @ [library, ''library.properties'']"

definition libraryArchitectures :: "env \<Rightarrow> path \<Rightarrow> string \<Rightarrow> string option" where
  "libraryArchitectures E rootPath library =
     (case parseProperties E (propertiesFile rootPath library) of
        Inl e \<Rightarrow> None
      | Inr properties \<Rightarrow> properties ''architectures'')"

definition libraryChildren :: "env \<Rightarrow> path \<Rightarrow> string \<Rightarrow> example_tree list" where
  "libraryChildren E rootPath library =
     (case parseExamples E (rootPath @ [library, ''examples'']) of Inl e \<Rightarrow> [] | Inr cs \<Rightarrow> cs)"

definition hasExamples :: "env \<Rightarrow> path \<Rightarrow> string \<Rightarrow> bool" where
  "hasExamples E rootPath library \<longleftrightarrow>
     fileExistsSync E (propertiesFile rootPath library) \<and> libraryChildren E rootPath library \<noteq> []"

definition listingNode :: "env \<Rightarrow> path \<Rightarrow> string \<Rightarrow> example_tree" where
  "listingNode E rootPath library = libraryNode rootPath library (libraryChildren E rootPath library)"


text \<open>
  The two groups of the listing: a library with examples is compatible when
  \<^verbatim>\<open>isSupported\<close> accepts its architectures, incompatible otherwise.
\<close>

definition compatibleLibrary :: "env \<Rightarrow> string option \<Rightarrow> path \<Rightarrow> string \<Rightarrow> bool" where
  "compatibleLibrary E targetArch rootPath library \<longleftrightarrow>
     hasExamples E rootPath library \<and> isSupported targetArch (libraryArchitectures E rootPath library)"

definition incompatibleLibrary :: "env \<Rightarrow> string option \<Rightarrow> path \<Rightarrow> string \<Rightarrow> bool" where
  "incompatibleLibrary E targetArch rootPath library \<longleftrightarrow>
     hasExamples E rootPath library \<and> \<not> isSupported targetArch (libraryArchitectures E rootPath library)"


section \<open>Example inputs\<close>

text \<open>
  An Arduino installation whose bundled index lists \<^verbatim>\<open>arduino/avr\<close> 1.6.11, \<^verbatim>\<open>arduino/sam\<close>
  1.6.4 and a platform entry without a version, and a user package directory holding
  \<^verbatim>\<open>arduino/avr\<close> with the versions 1.6.15 and 1.6.2, \<^verbatim>\<open>arduino/sam\<close> with nothing but a
  \<^verbatim>\<open>.DS_Store\<close>, \<^verbatim>\<open>esp8266/esp8266\<close> 2.3.0 and a package folder without \<^verbatim>\<open>hardware\<close>.
\<close>

definition exampleBundledText :: string where
  "exampleBundledText = ''{bundled index}''"

definition exampleBundledObject :: json where
  "exampleBundledObject =
     JObj [(''packages'', JArr [
       JObj [(''name'', JStr ''arduino''),
             (''platforms'', JArr [
                JObj [(''architecture'', JStr ''avr''), (''version'', JStr ''1.6.11'')],
                JObj [(''architecture'', JStr ''sam''), (''version'', JStr ''1.6.4'')],
                JObj [(''architecture'', JStr ''x86'')]])]])]"

definition exampleEnv :: env where
  "exampleEnv =
     \<lparr> readFileSync = (\<lambda>p. if p = [''ide'', ''hardware'', ''package_index_bundled.json'']
                           then Inr exampleBundledText else Inl IOError),
       readdirSync = (\<lambda>p.
          if p = [''home'', ''packages'', ''arduino'', ''hardware'']
            then Inr [''.DS_Store'', ''avr'', ''sam'']
          else if p = [''home'', ''packages'', ''arduino'', ''hardware'', ''avr'']
            then Inr [''.DS_Store'', ''1.6.15'', ''1.6.2'']
          else if p = [''home'', ''packages'', ''arduino'', ''hardware'', ''sam'']
            then Inr [''.DS_Store'']
          else if p = [''home'', ''packages'', ''esp8266'', ''hardware'']
            then Inr [''esp8266'']
          else if p = [''home'', ''packages'', ''esp8266'', ''hardware'', ''esp8266'']
            then Inr [''2.3.0'']
          else Inl IOError),
       directoryExistsSync = (\<lambda>p. p \<in> set [[''home'', ''packages''],
          [''home'', ''packages'', ''arduino'', ''hardware''],
          [''home'', ''packages'', ''esp8266'', ''hardware'']]),
       fileExistsSync = (\<lambda>p. False),
       readdirFolders = (\<lambda>p. if p = [''home'', ''packages'']
                             then Inr [''arduino'', ''esp8266'', ''builtin''] else Inl IOError),
       globSync = (\<lambda>p. []),
       JSON_parse = (\<lambda>s. if s = exampleBundledText then Inr exampleBundledObject else Inl SyntaxError),
       parseProperties = (\<lambda>p. Inl IOError),
       isJunk = (\<lambda>f. f = ''.DS_Store'') \<rparr>"

text \<open>
  The same installation with a bundled index that lists two versions of \<^verbatim>\<open>arduino/avr\<close>, the
  way \<^verbatim>\<open>package_index.json\<close> lists every released version of a platform as an entry of
  its own.
\<close>

definition twoVersionsObject :: json where
  "twoVersionsObject =
     JObj [(''packages'', JArr [
       JObj [(''name'', JStr ''arduino''),
             (''platforms'', JArr [
                JObj [(''architecture'', JStr ''avr''), (''version'', JStr ''1.6.11'')],
                JObj [(''architecture'', JStr ''avr''), (''version'', JStr ''1.6.12'')]])]])]"

definition twoVersionsEnv :: env where
  "twoVersionsEnv = exampleEnv \<lparr> JSON_parse := (\<lambda>s. Inr twoVersionsObject) \<rparr>"

text \<open>
  The same installation with a plain file \<^verbatim>\<open>README.md\<close> beside the architecture folder
  \<^verbatim>\<open>avr\<close> in \<^verbatim>\<open>packages/arduino/hardware\<close>. Listing it as a directory fails.
\<close>

definition strayFileEnv :: env where
  "strayFileEnv =
     exampleEnv \<lparr> readdirSync := (\<lambda>p.
        if p = [''home'', ''packages'', ''arduino'', ''hardware'']
          then Inr [''README.md'', ''avr'']
        else readdirSync exampleEnv p) \<rparr>"

text \<open>The two lists \<^verbatim>\<open>getInstalledPlatforms\<close> merges in the example installation.\<close>

definition exampleDefaults :: "installed_platform list" where
  "exampleDefaults = [
     \<lparr> packageName = ''arduino'', architecture = ''avr'', version = JStr ''1.6.11'',
       rootBoardPath = [''ide'', ''hardware'', ''arduino'', ''avr''], defaultPlatform = True \<rparr>,
     \<lparr> packageName = ''arduino'', architecture = ''sam'', version = JStr ''1.6.4'',
       rootBoardPath = [''ide'', ''hardware'', ''arduino'', ''sam''], defaultPlatform = True \<rparr>]"

definition exampleManual :: "installed_platform list" where
  "exampleManual = [
     \<lparr> packageName = ''arduino'', architecture = ''avr'', version = JStr ''1.6.15'',
       rootBoardPath = [''home'', ''packages'', ''arduino'', ''hardware'', ''avr'', ''1.6.15''],
       defaultPlatform = False \<rparr>,
     \<lparr> packageName = ''esp8266'', architecture = ''esp8266'', version = JStr ''2.3.0'',
       rootBoardPath = [''home'', ''packages'', ''esp8266'', ''hardware'', ''esp8266'', ''2.3.0''],
       defaultPlatform = False \<rparr>]"

text \<open>
  A board descriptor: a comment, a menu title, the board \<^verbatim>\<open>uno\<close> with a name given twice, a
  parameter and a value with blanks around it, and the board \<^verbatim>\<open>mega\<close> with a menu option.
\<close>

definition exampleDescriptor :: string where
  "exampleDescriptor = unlines [
     ''# boards'',
     ''menu.cpu=Processor'',
     ''uno.name= Arduino Uno '',
     ''uno.build.mcu=atmega328p'',
     ''uno.note= keep '',
     ''uno.name=Genuino Uno'',
     ''mega.menu.cpu.m2560=ATmega2560'']"

definition menuDescriptor :: string where
  "menuDescriptor = unlines [''menu.cpu=Processor'', ''uno.name=Arduino Uno'']"

definition plainDescriptor :: string where
  "plainDescriptor = unlines [''uno.name=Arduino Uno'']"


text \<open>
  Three index files: \<^verbatim>\<open>arduino/avr\<close> 1.6.2, then \<^verbatim>\<open>arduino/avr\<close> 1.6.3 with one board
  more and one board again, and the package \<^verbatim>\<open>adafruit\<close> with a platform of the same
  architecture.
\<close>

definition arduinoIndex :: package_index where
  "arduinoIndex = \<lparr> packages = [
     \<lparr> package_name = ''arduino'', package_platforms = [
        \<lparr> entry_architecture = ''avr'', entry_version = ''1.6.2'',
          entry_boards = [\<lparr> name = ''Arduino Uno'' \<rparr>, \<lparr> name = ''Arduino Mega'' \<rparr>] \<rparr>] \<rparr>] \<rparr>"

definition arduinoUpdateIndex :: package_index where
  "arduinoUpdateIndex = \<lparr> packages = [
     \<lparr> package_name = ''arduino'', package_platforms = [
        \<lparr> entry_architecture = ''avr'', entry_version = ''1.6.3'',
          entry_boards = [\<lparr> name = ''Arduino Uno'' \<rparr>, \<lparr> name = ''Arduino Leonardo'' \<rparr>] \<rparr>] \<rparr>] \<rparr>"

definition adafruitIndex :: package_index where
  "adafruitIndex = \<lparr> packages = [
     \<lparr> package_name = ''adafruit'', package_platforms = [
        \<lparr> entry_architecture = ''avr'', entry_version = ''1.4.0'',
          entry_boards = [\<lparr> name = ''Adafruit Flora'' \<rparr>] \<rparr>] \<rparr>] \<rparr>"


text \<open>
  Requests to \<^verbatim>\<open>/api/installboard\<close>: a complete one, one without \<^verbatim>\<open>packageName\<close>, and two
  installers, one that succeeds and one that throws.
\<close>

definition installRequest :: json where
  "installRequest =
     JObj [(''packageName'', JStr ''arduino''), (''arch'', JStr ''avr''), (''version'', JStr ''1.6.15'')]"

definition archOnlyRequest :: json where
  "archOnlyRequest = JObj [(''arch'', JStr ''avr'')]"

definition installSucceeds :: "json \<Rightarrow> json \<Rightarrow> json option \<Rightarrow> install_error option" where
  "installSucceeds pkgName arch ver = None"

definition installThrows :: "json \<Rightarrow> json \<Rightarrow> json option \<Rightarrow> install_error option" where
  "installThrows pkgName arch ver = Some (InstallError ''1'' ''no network'')"


text \<open>
  An installation with built-in examples (\<^verbatim>\<open>Basics/Blink\<close> with a sketch and a sub-folder,
  \<^verbatim>\<open>Basics/Fade\<close> with a sketch) and four library folders: \<^verbatim>\<open>Wire\<close> for \<^verbatim>\<open>avr\<close> with an
  example, \<^verbatim>\<open>Servo\<close> for \<^verbatim>\<open>avr,sam\<close> without examples, \<^verbatim>\<open>Ethernet\<close> for \<^verbatim>\<open>sam\<close> with an
  example, and \<^verbatim>\<open>Notes\<close> without \<^verbatim>\<open>library.properties\<close>.
\<close>

definition examplesEnv :: env where
  "examplesEnv =
     \<lparr> readFileSync = (\<lambda>p. Inl IOError),
       readdirSync = (\<lambda>p.
          if p = [''ide'', ''examples'', ''Basics''] then Inr [''Blink'', ''Fade'']
          else if p = [''ide'', ''examples'', ''Basics'', ''Blink''] then Inr [''Blink.ino'', ''extras'']
          else if p = [''ide'', ''examples'', ''Basics'', ''Fade''] then Inr [''Fade.ino'']
          else if p = [''libs'', ''Wire'', ''examples'', ''Scan''] then Inr [''Scan.ino'']
          else if p = [''libs'', ''Ethernet'', ''examples'', ''WebClient''] then Inr [''WebClient.ino'']
          else Inl IOError),
       directoryExistsSync = (\<lambda>p. p \<in> set [[''ide'', ''examples''],
          [''libs'', ''Wire'', ''examples''], [''libs'', ''Ethernet'', ''examples'']]),
       fileExistsSync = (\<lambda>p. p \<in> set [
          [''ide'', ''examples'', ''Basics'', ''Blink'', ''Blink.ino''],
          [''ide'', ''examples'', ''Basics'', ''Fade'', ''Fade.ino''],
          [''libs'', ''Wire'', ''library.properties''],
          [''libs'', ''Servo'', ''library.properties''],
          [''libs'', ''Ethernet'', ''library.properties''],
          [''libs'', ''Wire'', ''examples'', ''Scan'', ''Scan.ino''],
          [''libs'', ''Ethernet'', ''examples'', ''WebClient'', ''WebClient.ino'']]),
       readdirFolders = (\<lambda>p. if p = [''libs'']
                             then Inr [''Wire'', ''Servo'', ''Ethernet'', ''Notes''] else Inl IOError),
       globSync = (\<lambda>p.
          if p = [''ide'', ''examples''] then
            [[''ide'', ''examples''],
             [''ide'', ''examples'', ''Basics''],
             [''ide'', ''examples'', ''Basics'', ''Blink''],
             [''ide'', ''examples'', ''Basics'', ''Blink'', ''extras''],
             [''ide'', ''examples'', ''Basics'', ''Fade'']]
          else if p = [''libs'', ''Wire'', ''examples''] then
            [[''libs'', ''Wire'', ''examples''], [''libs'', ''Wire'', ''examples'', ''Scan'']]
          else if p = [''libs'', ''Ethernet'', ''examples''] then
            [[''libs'', ''Ethernet'', ''examples''], [''libs'', ''Ethernet'', ''examples'', ''WebClient'']]
          else []),
       JSON_parse = (\<lambda>s. Inl SyntaxError),
       parseProperties = (\<lambda>p.
          if p = [''libs'', ''Wire'', ''library.properties''] then Inr [''architectures'' \<mapsto> ''avr'']
          else if p = [''libs'', ''Servo'', ''library.properties''] then Inr [''architectures'' \<mapsto> ''avr,sam'']
          else if p = [''libs'', ''Ethernet'', ''library.properties''] then Inr [''architectures'' \<mapsto> ''sam'']
          else Inl IOError),
       isJunk = (\<lambda>f. False) \<rparr>"

text \<open>The same libraries, with \<^verbatim>\<open>Wire\<close> built for the architecture \<^verbatim>\<open>megaavr\<close> only.\<close>

definition megaavrEnv :: env where
  "megaavrEnv =
     examplesEnv \<lparr> parseProperties := (\<lambda>p.
        if p = [''libs'', ''Wire'', ''library.properties''] then Inr [''architectures'' \<mapsto> ''megaavr'']
        else parseProperties examplesEnv p) \<rparr>"

definition blinkTree :: example_tree where
  "blinkTree = ExampleNode ''Blink'' [''ide'', ''examples'', ''Basics'', ''Blink''] (Some True) []"

definition fadeTree :: example_tree where
  "fadeTree = ExampleNode ''Fade'' [''ide'', ''examples'', ''Basics'', ''Fade''] (Some True) []"

definition basicsTree :: example_tree where
  "basicsTree =
     ExampleNode ''Basics'' [''ide'', ''examples'', ''Basics''] (Some False) [blinkTree, fadeTree]"

definition wireNode :: example_tree where
  "wireNode = libraryNode [''libs''] ''Wire''
     [ExampleNode ''Scan'' [''libs'', ''Wire'', ''examples'', ''Scan''] (Some True) []]"

definition ethernetNode :: example_tree where
  "ethernetNode = libraryNode [''libs''] ''Ethernet''
     [ExampleNode ''WebClient'' [''libs'', ''Ethernet'', ''examples'', ''WebClient''] (Some True) []]"


section \<open>The bundled platforms (\<^verbatim>\<open>getDefaultPlatforms\<close>)\<close>

lemma defaultEntry_fromIndex:
  "defaultEntry dir pkg plf v = Inr entry \<Longrightarrow> getProp plf ''version'' = Inr (Some v) \<Longrightarrow> truthy v
     \<Longrightarrow> fromIndex dir pkg plf entry"
  by (auto simp: defaultEntry_def fromIndex_def split: sum.splits option.splits json.splits)

lemma defaultPlatformLoop_inv:
  "defaultPlatformLoop dir pkg platforms acc = (r, out) \<Longrightarrow>
   (\<And>p. p \<in> set acc \<Longrightarrow> R p) \<Longrightarrow>
   (\<And>plf p. plf \<in> set platforms \<Longrightarrow> fromIndex dir pkg plf p \<Longrightarrow> R p) \<Longrightarrow>
   q \<in> set out \<Longrightarrow> R q"
proof (induction platforms arbitrary: acc)
  case Nil
  then show ?case by simp
next
  case (Cons plf rest)
  have rest: "\<And>pl p. pl \<in> set rest \<Longrightarrow> fromIndex dir pkg pl p \<Longrightarrow> R p"
    using Cons.prems(3) by (meson list.set_intros(2))
  show ?case
  proof (cases "getProp plf ''version''")
    case (Inl e)
    with Cons.prems show ?thesis by simp
  next
    case (Inr ov)
    show ?thesis
    proof (cases ov)
      case None
      with Inr Cons.prems have "defaultPlatformLoop dir pkg rest acc = (r, out)" by simp
      from Cons.IH[OF this Cons.prems(2) rest Cons.prems(4)] show ?thesis by simp
    next
      case (Some v)
      show ?thesis
      proof (cases "truthy v")
        case False
        with Some Inr Cons.prems have "defaultPlatformLoop dir pkg rest acc = (r, out)" by simp
        from Cons.IH[OF this Cons.prems(2) rest Cons.prems(4)] show ?thesis by simp
      next
        case True
        show ?thesis
        proof (cases "defaultEntry dir pkg plf v")
          case (Inl e)
          with True Some Inr Cons.prems show ?thesis by simp
        next
          case (Inr entry)
          with True Some \<open>getProp plf ''version'' = Inr ov\<close> Cons.prems
          have run: "defaultPlatformLoop dir pkg rest (acc @ [entry]) = (r, out)" by simp
          have "fromIndex dir pkg plf entry"
            using defaultEntry_fromIndex[OF Inr] Some \<open>getProp plf ''version'' = Inr ov\<close> True by simp
          then have "R entry" using Cons.prems(3)[of plf entry] by simp
          then have acc': "\<And>p. p \<in> set (acc @ [entry]) \<Longrightarrow> R p" using Cons.prems(2) by auto
          from Cons.IH[OF run acc' rest Cons.prems(4)] show ?thesis by simp
        qed
      qed
    qed
  qed
qed

lemma defaultPackageLoop_inv:
  "defaultPackageLoop dir pkgs acc = (r, out) \<Longrightarrow>
   (\<And>p. p \<in> set acc \<Longrightarrow> R p) \<Longrightarrow>
   (\<And>pkg ps platforms plf p. pkg \<in> set pkgs \<Longrightarrow> getProp pkg ''platforms'' = Inr ps \<Longrightarrow>
       iterate ps = Inr platforms \<Longrightarrow> plf \<in> set platforms \<Longrightarrow> fromIndex dir pkg plf p \<Longrightarrow> R p) \<Longrightarrow>
   q \<in> set out \<Longrightarrow> R q"
proof (induction pkgs arbitrary: acc)
  case Nil
  then show ?case by simp
next
  case (Cons pkg rest)
  have rest: "\<And>pk ps platforms plf p. pk \<in> set rest \<Longrightarrow> getProp pk ''platforms'' = Inr ps \<Longrightarrow>
       iterate ps = Inr platforms \<Longrightarrow> plf \<in> set platforms \<Longrightarrow> fromIndex dir pk plf p \<Longrightarrow> R p"
    using Cons.prems(3) by (meson list.set_intros(2))
  show ?case
  proof (cases "getProp pkg ''platforms''")
    case (Inl e)
    with Cons.prems show ?thesis by simp
  next
    case (Inr ps)
    show ?thesis
    proof (cases "iterate ps")
      case (Inl e)
      with Inr Cons.prems show ?thesis by simp
    next
      case it: (Inr platforms)
      obtain r' acc' where inner: "defaultPlatformLoop dir pkg platforms acc = (r', acc')"
        by (cases "defaultPlatformLoop dir pkg platforms acc") auto
      have here: "\<And>plf p. plf \<in> set platforms \<Longrightarrow> fromIndex dir pkg plf p \<Longrightarrow> R p"
        using Cons.prems(3)[of pkg ps platforms] Inr it by simp
      have acc': "R p" if "p \<in> set acc'" for p
      proof (rule defaultPlatformLoop_inv[where R = R, OF inner _ _ that])
        show "\<And>p. p \<in> set acc \<Longrightarrow> R p" by (rule Cons.prems(2))
        show "\<And>plf p. plf \<in> set platforms \<Longrightarrow> fromIndex dir pkg plf p \<Longrightarrow> R p"
          by (rule here)
      qed
      show ?thesis
      proof (cases r')
        case None
        with inner Inr it Cons.prems(1) have "defaultPackageLoop dir rest acc' = (r, out)" by simp
        from Cons.IH[OF this acc' rest Cons.prems(4)] show ?thesis by simp
      next
        case (Some e)
        with inner Inr it Cons.prems(1) have "out = acc'" by simp
        with acc' Cons.prems(4) show ?thesis by simp
      qed
    qed
  qed
qed

lemma try_entries:
  assumes "q \<in> set (snd (getDefaultPlatforms_try E dpp))"
  shows "\<exists>c obj. readFileSync E (bundledIndexFile dpp) = Inr c \<and> JSON_parse E c = Inr obj \<and>
           (\<exists>pkg\<in>set (indexPackages obj). \<exists>plf\<in>set (packagePlatforms pkg). fromIndex dpp pkg plf q)"
proof (cases "readFileSync E (bundledIndexFile dpp)")
  case (Inl e)
  with assms show ?thesis by (simp add: getDefaultPlatforms_try_def bundledIndexFile_def)
next
  case rd: (Inr c)
  show ?thesis
  proof (cases "JSON_parse E c")
    case (Inl e)
    with rd assms show ?thesis by (simp add: getDefaultPlatforms_try_def bundledIndexFile_def split: if_splits)
  next
    case ps: (Inr obj)
    show ?thesis
    proof (cases "getProp obj ''packages''")
      case (Inl e)
      with rd ps assms show ?thesis by (simp add: getDefaultPlatforms_try_def bundledIndexFile_def split: if_splits)
    next
      case gp: (Inr pk)
      show ?thesis
      proof (cases "iterate pk")
        case (Inl e)
        with rd ps gp assms show ?thesis by (simp add: getDefaultPlatforms_try_def bundledIndexFile_def split: if_splits)
      next
        case it: (Inr pkgs)
        obtain r out where run: "defaultPackageLoop dpp pkgs [] = (r, out)"
          by (cases "defaultPackageLoop dpp pkgs []") auto
        have q: "q \<in> set out"
          using assms rd ps gp it run
          by (simp add: getDefaultPlatforms_try_def bundledIndexFile_def split: if_splits)
        have ip: "indexPackages obj = pkgs" by (simp add: indexPackages_def gp it)
        have "\<exists>pkg\<in>set pkgs. \<exists>plf\<in>set (packagePlatforms pkg). fromIndex dpp pkg plf q"
        proof (rule defaultPackageLoop_inv[OF run _ _ q])
          fix p :: installed_platform assume "p \<in> set []"
          then show "\<exists>pkg\<in>set pkgs. \<exists>plf\<in>set (packagePlatforms pkg). fromIndex dpp pkg plf p" by simp
        next
          fix pkg ps platforms plf p
          assume "pkg \<in> set pkgs" "getProp pkg ''platforms'' = Inr ps" "iterate ps = Inr platforms"
            "plf \<in> set platforms" "fromIndex dpp pkg plf p"
          moreover from this have "packagePlatforms pkg = platforms" by (simp add: packagePlatforms_def)
          ultimately show "\<exists>pkg\<in>set pkgs. \<exists>plf\<in>set (packagePlatforms pkg). fromIndex dpp pkg plf p"
            by blast
        qed
        with rd ps ip show ?thesis by simp
      qed
    qed
  qed
qed

lemmas example_defs = exampleEnv_def exampleBundledObject_def exampleBundledText_def
  path_join_def joinSegment_def isPathSeparator_def

lemma example_defaults:
  "getDefaultPlatforms exampleEnv [''ide'', ''hardware''] = Inr exampleDefaults"
  by (simp add: getDefaultPlatforms_def getDefaultPlatforms_try_def example_defs defaultEntry_def
      exampleDefaults_def)

lemma example_manual:
  "getManuallyInstalledPlatforms exampleEnv [''home''] = Inr exampleManual"
  by (simp add: getManuallyInstalledPlatforms_def example_defs filterJunk_def exampleManual_def)

text \<open>
  C8. \<^verbatim>\<open>getDefaultPlatforms\<close> never throws: it returns a list for every file system and
  every \<^verbatim>\<open>JSON.parse\<close>. The list is empty when \<^verbatim>\<open>package_index_bundled.json\<close> cannot be
  read, is empty, or does not parse. Every entry returned has \<^verbatim>\<open>defaultPlatform\<close> true and a
  truthy (for a string: non-empty) version, and that version, the package name and the
  architecture are those of a platform entry of a package of the parsed bundled index.
\<close>

theorem getDefaultPlatforms_never_throws:
  "\<exists>ps. getDefaultPlatforms E dpp = Inr ps \<and>
     ((\<exists>e. readFileSync E (bundledIndexFile dpp) = Inl e) \<longrightarrow> ps = []) \<and>
     (readFileSync E (bundledIndexFile dpp) = Inr [] \<longrightarrow> ps = []) \<and>
     ((\<exists>c e. readFileSync E (bundledIndexFile dpp) = Inr c \<and> JSON_parse E c = Inl e) \<longrightarrow> ps = []) \<and>
     (\<forall>p\<in>set ps. defaultPlatform p \<and> truthy (version p) \<and>
        (\<exists>c obj. readFileSync E (bundledIndexFile dpp) = Inr c \<and> JSON_parse E c = Inr obj \<and>
           (\<exists>pkg\<in>set (indexPackages obj). \<exists>plf\<in>set (packagePlatforms pkg).
              getProp plf ''version'' = Inr (Some (version p)) \<and>
              getProp pkg ''name'' = Inr (Some (JStr (packageName p))) \<and>
              getProp plf ''architecture'' = Inr (Some (JStr (architecture p))))))"
proof -
  let ?ps = "snd (getDefaultPlatforms_try E dpp)"
  have 1: "getDefaultPlatforms E dpp = Inr ?ps" by (simp add: getDefaultPlatforms_def)
  have 2: "(\<exists>e. readFileSync E (bundledIndexFile dpp) = Inl e) \<longrightarrow> ?ps = []"
    by (auto simp: getDefaultPlatforms_try_def bundledIndexFile_def)
  have 3: "readFileSync E (bundledIndexFile dpp) = Inr [] \<longrightarrow> ?ps = []"
    by (auto simp: getDefaultPlatforms_try_def bundledIndexFile_def)
  have 4: "(\<exists>c e. readFileSync E (bundledIndexFile dpp) = Inr c \<and> JSON_parse E c = Inl e) \<longrightarrow> ?ps = []"
    by (auto simp: getDefaultPlatforms_try_def bundledIndexFile_def)
  have 5: "\<forall>p\<in>set ?ps. defaultPlatform p \<and> truthy (version p) \<and>
        (\<exists>c obj. readFileSync E (bundledIndexFile dpp) = Inr c \<and> JSON_parse E c = Inr obj \<and>
           (\<exists>pkg\<in>set (indexPackages obj). \<exists>plf\<in>set (packagePlatforms pkg).
              getProp plf ''version'' = Inr (Some (version p)) \<and>
              getProp pkg ''name'' = Inr (Some (JStr (packageName p))) \<and>
              getProp plf ''architecture'' = Inr (Some (JStr (architecture p)))))"
  proof
    fix p assume "p \<in> set ?ps"
    from try_entries[OF this] show "defaultPlatform p \<and> truthy (version p) \<and>
        (\<exists>c obj. readFileSync E (bundledIndexFile dpp) = Inr c \<and> JSON_parse E c = Inr obj \<and>
           (\<exists>pkg\<in>set (indexPackages obj). \<exists>plf\<in>set (packagePlatforms pkg).
              getProp plf ''version'' = Inr (Some (version p)) \<and>
              getProp pkg ''name'' = Inr (Some (JStr (packageName p))) \<and>
              getProp plf ''architecture'' = Inr (Some (JStr (architecture p)))))"
      unfolding fromIndex_def by blast
  qed
  from 1 2 3 4 5 show ?thesis by blast
qed


theorem getDefaultPlatforms_never_throws_witness:
  "(\<exists>ps. getDefaultPlatforms exampleEnv [''ide'', ''hardware''] = Inr ps \<and> length ps = 2 \<and>
      list_all (\<lambda>p. defaultPlatform p \<and> truthy (version p)) ps) \<and>
   (\<exists>e. readFileSync exampleEnv (bundledIndexFile [''elsewhere'']) = Inl e) \<and>
   getDefaultPlatforms exampleEnv [''elsewhere''] = Inr []"
proof -
  from getDefaultPlatforms_never_throws[of exampleEnv "[''ide'', ''hardware'']"]
  obtain ps where ps: "getDefaultPlatforms exampleEnv [''ide'', ''hardware''] = Inr ps"
    and all: "\<forall>p\<in>set ps. defaultPlatform p \<and> truthy (version p)"
    by blast
  from ps have "ps = exampleDefaults" by (simp add: example_defaults)
  then have len: "length ps = 2" by (simp add: exampleDefaults_def)
  from all have la: "list_all (\<lambda>p. defaultPlatform p \<and> truthy (version p)) ps"
    by (simp add: list_all_iff)
  have missing: "\<exists>e. readFileSync exampleEnv (bundledIndexFile [''elsewhere'']) = Inl e"
    by (simp add: exampleEnv_def bundledIndexFile_def)
  from getDefaultPlatforms_never_throws[of exampleEnv "[''elsewhere'']"]
  obtain qs where qs: "getDefaultPlatforms exampleEnv [''elsewhere''] = Inr qs"
    and "(\<exists>e. readFileSync exampleEnv (bundledIndexFile [''elsewhere'']) = Inl e) \<longrightarrow> qs = []"
    by blast
  with missing have "getDefaultPlatforms exampleEnv [''elsewhere''] = Inr []" by simp
  with ps len la missing show ?thesis by (intro conjI exI[of _ ps])
qed

section \<open>The user's platforms (\<^verbatim>\<open>getManuallyInstalledPlatforms\<close>)\<close>

lemma manualArchLoop_eq:
  "(\<And>arch. arch \<in> set archs \<Longrightarrow> \<exists>listing. readdirSync E (hardwarePath packagePath pkgName @ [arch]) = Inr listing) \<Longrightarrow>
   manualArchLoop E pkgName (hardwarePath packagePath pkgName) archs acc =
     Inr (acc @ concat (map (entriesAt E packagePath pkgName) archs))"
proof (induction archs arbitrary: acc)
  case Nil
  then show ?case by simp
next
  case (Cons arch rest)
  from Cons.prems[of arch] obtain listing
    where l: "readdirSync E (hardwarePath packagePath pkgName @ [arch]) = Inr listing" by auto
  have rest: "\<And>a. a \<in> set rest \<Longrightarrow> \<exists>listing. readdirSync E (hardwarePath packagePath pkgName @ [a]) = Inr listing"
    using Cons.prems by simp
  show ?case
  proof (cases "filterJunk E listing")
    case Nil
    then show ?thesis using l Cons.IH[OF rest]
      by (simp add: entriesAt_def nonJunkEntries_def)
  next
    case (Cons v vs)
    then show ?thesis using l Cons.IH[OF rest]
      by (simp add: entriesAt_def nonJunkEntries_def manualEntry_def)
  qed
qed

lemma manualPackageLoop_eq:
  "(\<And>pkgName. pkgName \<in> set pkgs \<Longrightarrow> directoryExistsSync E (hardwarePath packagePath pkgName) \<Longrightarrow>
        \<exists>archs. readdirSync E (hardwarePath packagePath pkgName) = Inr archs \<and>
           (\<forall>arch\<in>set (filterJunk E archs).
              \<exists>listing. readdirSync E (hardwarePath packagePath pkgName @ [arch]) = Inr listing)) \<Longrightarrow>
   manualPackageLoop E packagePath pkgs acc =
     Inr (acc @ concat (map (packageEntries E packagePath) pkgs))"
proof (induction pkgs arbitrary: acc)
  case Nil
  then show ?case by simp
next
  case (Cons pkgName rest)
  have rest: "\<And>q. q \<in> set rest \<Longrightarrow> directoryExistsSync E (hardwarePath packagePath q) \<Longrightarrow>
        \<exists>archs. readdirSync E (hardwarePath packagePath q) = Inr archs \<and>
           (\<forall>arch\<in>set (filterJunk E archs).
              \<exists>listing. readdirSync E (hardwarePath packagePath q @ [arch]) = Inr listing)"
    using Cons.prems by simp
  show ?case
  proof (cases "directoryExistsSync E (hardwarePath packagePath pkgName)")
    case False
    then show ?thesis using Cons.IH[OF rest]
      by (simp add: packageEntries_def hardwarePath_def)
  next
    case True
    from Cons.prems[of pkgName] True obtain archs
      where a: "readdirSync E (hardwarePath packagePath pkgName) = Inr archs"
        and ls: "\<And>arch. arch \<in> set (filterJunk E archs) \<Longrightarrow>
              \<exists>listing. readdirSync E (hardwarePath packagePath pkgName @ [arch]) = Inr listing"
      by auto
    have inner: "manualArchLoop E pkgName (hardwarePath packagePath pkgName) (filterJunk E archs) acc =
       Inr (acc @ concat (map (entriesAt E packagePath pkgName) (filterJunk E archs)))"
      by (rule manualArchLoop_eq[OF ls])
    have pe: "packageEntries E packagePath pkgName = concat (map (entriesAt E packagePath pkgName) (filterJunk E archs))"
      using True a by (simp add: packageEntries_def nonJunkEntries_def)
    have "manualPackageLoop E packagePath (pkgName # rest) acc =
       manualPackageLoop E packagePath rest (acc @ packageEntries E packagePath pkgName)"
      using True a inner pe by (simp add: hardwarePath_def[symmetric] Let_def)
    then show ?thesis using Cons.IH[OF rest] by simp
  qed
qed

lemma getManuallyInstalledPlatforms_eq:
  assumes "listingsSucceed E packagePath"
  shows "getManuallyInstalledPlatforms E packagePath =
     Inr (concat (map (\<lambda>(pkgName, arch). entriesAt E packagePath pkgName arch) (manualFolders E packagePath)))"
proof (cases "directoryExistsSync E (packagePath @ [''packages''])")
  case False
  then show ?thesis by (simp add: getManuallyInstalledPlatforms_def manualFolders_def)
next
  case True
  with assms obtain dirs where d: "readdirFolders E (packagePath @ [''packages'']) = Inr dirs"
    and h: "\<And>pkgName. pkgName \<in> set (filterJunk E dirs) \<Longrightarrow> directoryExistsSync E (hardwarePath packagePath pkgName) \<Longrightarrow>
        \<exists>archs. readdirSync E (hardwarePath packagePath pkgName) = Inr archs \<and>
           (\<forall>arch\<in>set (filterJunk E archs).
              \<exists>listing. readdirSync E (hardwarePath packagePath pkgName @ [arch]) = Inr listing)"
    unfolding listingsSucceed_def by blast
  have run: "getManuallyInstalledPlatforms E packagePath =
      Inr (concat (map (packageEntries E packagePath) (filterJunk E dirs)))"
    using True d manualPackageLoop_eq[OF h, of "filterJunk E dirs" "[]"]
    by (simp add: getManuallyInstalledPlatforms_def)
  have flat: "concat (map (\<lambda>(pkgName, arch). entriesAt E packagePath pkgName arch)
                 (concat (map (\<lambda>pkgName.
                       if directoryExistsSync E (hardwarePath packagePath pkgName)
                       then map (Pair pkgName) (nonJunkEntries E (hardwarePath packagePath pkgName))
                       else []) pkgs)))
        = concat (map (packageEntries E packagePath) pkgs)" for pkgs
    by (induction pkgs) (simp_all add: packageEntries_def comp_def)
  show ?thesis using True d run flat by (simp add: manualFolders_def)
qed

lemma concat_map_mem: "x \<in> set xs \<Longrightarrow> y \<in> set (f x) \<Longrightarrow> y \<in> set (concat (map f xs))"
  by auto

lemma entriesAt_mem:
  "p \<in> set (entriesAt E packagePath pkgName arch) \<Longrightarrow>
     \<exists>v vs. nonJunkEntries E (hardwarePath packagePath pkgName @ [arch]) = v # vs \<and>
            p = manualEntry packagePath pkgName arch v"
proof (cases "nonJunkEntries E (hardwarePath packagePath pkgName @ [arch])")
  case Nil
  assume "p \<in> set (entriesAt E packagePath pkgName arch)"
  with Nil show ?thesis by (simp add: entriesAt_def)
next
  case (Cons v vs)
  assume "p \<in> set (entriesAt E packagePath pkgName arch)"
  with Cons show ?thesis by (simp add: entriesAt_def)
qed

lemma manualEntry_sel [simp]:
  "packageName (manualEntry packagePath pkgName arch v) = pkgName"
  "architecture (manualEntry packagePath pkgName arch v) = arch"
  by (simp_all add: manualEntry_def)

text \<open>
  When every directory listing succeeds, the function does what C5 says:
  \<^verbatim>\<open>getManuallyInstalledPlatforms\<close> returns a list in which every (package, architecture) folder under the user package directory whose
  listing has a non-junk entry is represented by exactly the platform whose version is
  the first non-junk entry \<open>v\<close> of that listing and whose \<^verbatim>\<open>rootBoardPath\<close> is the path of
  \<open>v\<close> in the architecture folder (\<open>manualEntry\<close>), and in which a folder with no non-junk
  entry has no platform. Nothing else is in the list.
\<close>

theorem getManuallyInstalledPlatforms_first_version:
  assumes "listingsSucceed E packagePath"
  shows "\<exists>ps. getManuallyInstalledPlatforms E packagePath = Inr ps \<and>
     (\<forall>(pkgName, arch)\<in>set (manualFolders E packagePath).
        (case nonJunkEntries E (hardwarePath packagePath pkgName @ [arch]) of
           [] \<Rightarrow> \<forall>p\<in>set ps. \<not> (packageName p = pkgName \<and> architecture p = arch)
         | v # vs \<Rightarrow>
             manualEntry packagePath pkgName arch v \<in> set ps \<and>
             (\<forall>p\<in>set ps. packageName p = pkgName \<and> architecture p = arch \<longrightarrow>
                 p = manualEntry packagePath pkgName arch v))) \<and>
     (\<forall>p\<in>set ps. (packageName p, architecture p) \<in> set (manualFolders E packagePath))"
proof -
  define F where "F = manualFolders E packagePath"
  define ps where "ps = concat (map (\<lambda>(pkgName, arch). entriesAt E packagePath pkgName arch) F)"
  have eq: "getManuallyInstalledPlatforms E packagePath = Inr ps"
    unfolding ps_def F_def by (rule getManuallyInstalledPlatforms_eq[OF assms])
  have origin: "\<exists>pk ar v vs. (pk, ar) \<in> set F \<and>
        nonJunkEntries E (hardwarePath packagePath pk @ [ar]) = v # vs \<and> p = manualEntry packagePath pk ar v"
    if "p \<in> set ps" for p
  proof -
    from that obtain pk ar where f: "(pk, ar) \<in> set F" and m: "p \<in> set (entriesAt E packagePath pk ar)"
      unfolding ps_def by auto
    from entriesAt_mem[OF m] f show ?thesis by blast
  qed
  have A: "case nonJunkEntries E (hardwarePath packagePath pkgName @ [arch]) of
           [] \<Rightarrow> \<forall>p\<in>set ps. \<not> (packageName p = pkgName \<and> architecture p = arch)
         | v # vs \<Rightarrow>
             manualEntry packagePath pkgName arch v \<in> set ps \<and>
             (\<forall>p\<in>set ps. packageName p = pkgName \<and> architecture p = arch \<longrightarrow>
                 p = manualEntry packagePath pkgName arch v)"
    if f: "(pkgName, arch) \<in> set F" for pkgName arch
  proof (cases "nonJunkEntries E (hardwarePath packagePath pkgName @ [arch])")
    case Nil
    have "\<not> (packageName p = pkgName \<and> architecture p = arch)" if "p \<in> set ps" for p
    proof
      assume k: "packageName p = pkgName \<and> architecture p = arch"
      from origin[OF that] obtain pk ar v vs where
        "nonJunkEntries E (hardwarePath packagePath pk @ [ar]) = v # vs" "p = manualEntry packagePath pk ar v"
        by blast
      with k Nil show False by simp
    qed
    then have "\<forall>p\<in>set ps. \<not> (packageName p = pkgName \<and> architecture p = arch)" by blast
    with Nil show ?thesis by simp
  next
    case (Cons v vs)
    then have "entriesAt E packagePath pkgName arch = [manualEntry packagePath pkgName arch v]"
      by (simp add: entriesAt_def)
    then have "manualEntry packagePath pkgName arch v \<in> set (entriesAt E packagePath pkgName arch)" by simp
    with f have 1: "manualEntry packagePath pkgName arch v \<in> set ps"
      unfolding ps_def
      using concat_map_mem[of "(pkgName, arch)" F _ "\<lambda>(pkgName, arch). entriesAt E packagePath pkgName arch"]
      by simp
    have "p = manualEntry packagePath pkgName arch v"
      if "p \<in> set ps" "packageName p = pkgName \<and> architecture p = arch" for p
    proof -
      from origin[OF that(1)] obtain pk ar v' vs' where
        o: "nonJunkEntries E (hardwarePath packagePath pk @ [ar]) = v' # vs'" "p = manualEntry packagePath pk ar v'"
        by blast
      with that(2) have "pk = pkgName" "ar = arch" by simp_all
      with o Cons show ?thesis by simp
    qed
    then have 2: "\<forall>p\<in>set ps. packageName p = pkgName \<and> architecture p = arch \<longrightarrow>
                 p = manualEntry packagePath pkgName arch v" by blast
    show ?thesis unfolding Cons list.case by (rule conjI[OF 1 2])
  qed
  have B: "(packageName p, architecture p) \<in> set F" if "p \<in> set ps" for p
  proof -
    from origin[OF that] obtain pk ar v where "(pk, ar) \<in> set F" "p = manualEntry packagePath pk ar v"
      by blast
    then show ?thesis by simp
  qed
  have A': "\<forall>(pkgName, arch)\<in>set F.
        (case nonJunkEntries E (hardwarePath packagePath pkgName @ [arch]) of
           [] \<Rightarrow> \<forall>p\<in>set ps. \<not> (packageName p = pkgName \<and> architecture p = arch)
         | v # vs \<Rightarrow>
             manualEntry packagePath pkgName arch v \<in> set ps \<and>
             (\<forall>p\<in>set ps. packageName p = pkgName \<and> architecture p = arch \<longrightarrow>
                 p = manualEntry packagePath pkgName arch v))"
  proof (rule ballI)
    fix x assume "x \<in> set F"
    then have "(fst x, snd x) \<in> set F" by simp
    from A[OF this] show "case x of (pkgName, arch) \<Rightarrow>
        (case nonJunkEntries E (hardwarePath packagePath pkgName @ [arch]) of
           [] \<Rightarrow> \<forall>p\<in>set ps. \<not> (packageName p = pkgName \<and> architecture p = arch)
         | v # vs \<Rightarrow>
             manualEntry packagePath pkgName arch v \<in> set ps \<and>
             (\<forall>p\<in>set ps. packageName p = pkgName \<and> architecture p = arch \<longrightarrow>
                 p = manualEntry packagePath pkgName arch v))"
      by (simp only: split_beta)
  qed
  have B': "\<forall>p\<in>set ps. (packageName p, architecture p) \<in> set F" using B by blast
  from eq A' B' show ?thesis unfolding F_def by (intro exI[of _ ps] conjI)
qed


theorem getManuallyInstalledPlatforms_first_version_witness:
  "listingsSucceed exampleEnv [''home''] \<and>
   (\<exists>ps. getManuallyInstalledPlatforms exampleEnv [''home''] = Inr ps \<and>
      manualEntry [''home''] ''arduino'' ''avr'' ''1.6.15'' \<in> set ps \<and>
      \<not> (\<exists>p\<in>set ps. packageName p = ''arduino'' \<and> architecture p = ''sam''))"
proof -
  have h: "listingsSucceed exampleEnv [''home'']"
    by (simp add: listingsSucceed_def example_defs filterJunk_def hardwarePath_def)
  from getManuallyInstalledPlatforms_first_version[OF h]
  obtain ps where ps: "getManuallyInstalledPlatforms exampleEnv [''home''] = Inr ps"
    and each: "\<forall>(pkgName, arch)\<in>set (manualFolders exampleEnv [''home'']).
        (case nonJunkEntries exampleEnv (hardwarePath [''home''] pkgName @ [arch]) of
           [] \<Rightarrow> \<forall>p\<in>set ps. \<not> (packageName p = pkgName \<and> architecture p = arch)
         | v # vs \<Rightarrow>
             manualEntry [''home''] pkgName arch v \<in> set ps \<and>
             (\<forall>p\<in>set ps. packageName p = pkgName \<and> architecture p = arch \<longrightarrow>
                 p = manualEntry [''home''] pkgName arch v))"
    by blast
  have folders: "manualFolders exampleEnv [''home''] =
      [(''arduino'', ''avr''), (''arduino'', ''sam''), (''esp8266'', ''esp8266'')]"
    by (simp add: manualFolders_def nonJunkEntries_def example_defs filterJunk_def hardwarePath_def)
  have avr: "nonJunkEntries exampleEnv (hardwarePath [''home''] ''arduino'' @ [''avr'']) = [''1.6.15'', ''1.6.2'']"
    by (simp add: nonJunkEntries_def example_defs filterJunk_def hardwarePath_def)
  have sam: "nonJunkEntries exampleEnv (hardwarePath [''home''] ''arduino'' @ [''sam'']) = []"
    by (simp add: nonJunkEntries_def example_defs filterJunk_def hardwarePath_def)
  from each folders avr have "manualEntry [''home''] ''arduino'' ''avr'' ''1.6.15'' \<in> set ps" by simp
  moreover from each folders sam
  have "\<not> (\<exists>p\<in>set ps. packageName p = ''arduino'' \<and> architecture p = ''sam'')" by simp
  ultimately show ?thesis using h ps by blast
qed

text \<open>
  C5 fails on the code where a hardware folder holds a plain file that is not junk.
  \<^verbatim>\<open>packages/arduino/hardware\<close> holds \<^verbatim>\<open>README.md\<close> and the architecture folder \<^verbatim>\<open>avr\<close>, whose
  first non-junk entry is \<^verbatim>\<open>1.6.15\<close>. The package folders are listed with
  \<^verbatim>\<open>util.readdirSync(dir, true)\<close>, which keeps folders only, but the hardware folder is listed
  with \<^verbatim>\<open>fs.readdirSync\<close>, so the loop calls \<^verbatim>\<open>fs.readdirSync\<close> on \<^verbatim>\<open>README.md\<close>. That call
  throws, nothing catches it, and the function returns no platform at all: \<^verbatim>\<open>arduino/avr\<close> is
  not resolved to \<^verbatim>\<open>1.6.15\<close>.
\<close>

theorem getManuallyInstalledPlatforms_stray_file:
  "readdirFolders strayFileEnv [''home'', ''packages''] = Inr [''arduino'', ''esp8266'', ''builtin''] \<and>
   readdirSync strayFileEnv [''home'', ''packages'', ''arduino'', ''hardware''] = Inr [''README.md'', ''avr''] \<and>
   \<not> isJunk strayFileEnv ''README.md'' \<and>
   readdirSync strayFileEnv [''home'', ''packages'', ''arduino'', ''hardware'', ''README.md''] = Inl IOError \<and>
   nonJunkEntries strayFileEnv [''home'', ''packages'', ''arduino'', ''hardware'', ''avr''] = [''1.6.15'', ''1.6.2''] \<and>
   getManuallyInstalledPlatforms strayFileEnv [''home''] = Inl IOError"
  by (simp add: getManuallyInstalledPlatforms_def strayFileEnv_def example_defs filterJunk_def
      nonJunkEntries_def)

section \<open>Merging (\<^verbatim>\<open>getInstalledPlatforms\<close>)\<close>

lemma mergeManual_snoc: "mergeManual L (M @ [m]) = mergeStep (mergeManual L M) m"
  by (induction M arbitrary: L) simp_all

lemma manualFor_snoc:
  "manualFor (M @ [m]) k = (if platformKey m = k then Some m else manualFor M k)"
  by (simp add: manualFor_def Let_def)

lemma samePlatform_key: "samePlatform p q \<longleftrightarrow> platformKey p = platformKey q"
  by (auto simp: samePlatform_def platformKey_def)

lemma overwriteFound_keys: "map platformKey (overwriteFound m L) = map platformKey L"
  by (induction L) (simp_all add: platformKey_def)

lemma find_None_keys: "find (\<lambda>p. samePlatform p m) L = None \<longleftrightarrow> platformKey m \<notin> set (map platformKey L)"
  by (induction L) (auto simp: samePlatform_key)

lemma mergeStep_keys:
  "platformKey ` set (mergeStep L m) = insert (platformKey m) (platformKey ` set L)"
proof (cases "find (\<lambda>p. samePlatform p m) L")
  case None
  then show ?thesis by (simp add: mergeStep_def)
next
  case (Some a)
  then have "platformKey m \<in> set (map platformKey L)" using find_None_keys[of m L] by simp
  moreover have "platformKey ` set (overwriteFound m L) = platformKey ` set L"
    using overwriteFound_keys[of m L] by (metis set_map)
  ultimately show ?thesis using Some by (auto simp: mergeStep_def)
qed

lemma mergeStep_distinct:
  "distinct (map platformKey L) \<Longrightarrow> distinct (map platformKey (mergeStep L m))"
proof (cases "find (\<lambda>p. samePlatform p m) L")
  case None
  assume "distinct (map platformKey L)"
  with None show ?thesis using find_None_keys[of m L] by (simp add: mergeStep_def)
next
  case (Some a)
  assume "distinct (map platformKey L)"
  with Some show ?thesis by (simp add: mergeStep_def overwriteFound_keys)
qed

lemma overwriteFound_mem:
  "distinct (map platformKey L) \<Longrightarrow> p \<in> set (overwriteFound m L) \<Longrightarrow>
     (if platformKey p = platformKey m
      then version p = version m \<and> rootBoardPath p = rootBoardPath m \<and> defaultPlatform p = defaultPlatform m
      else p \<in> set L)"
proof (induction L)
  case Nil
  then show ?case by simp
next
  case (Cons a L)
  show ?case
  proof (cases "samePlatform a m")
    case True
    then have k: "platformKey a = platformKey m" by (simp add: samePlatform_key)
    from Cons.prems(2) True
    consider "p = a\<lparr>defaultPlatform := defaultPlatform m, version := version m, rootBoardPath := rootBoardPath m\<rparr>"
      | "p \<in> set L" by auto
    then show ?thesis
    proof cases
      case 1
      then show ?thesis using k by (simp add: platformKey_def)
    next
      case 2
      then have "platformKey p \<in> set (map platformKey L)" by simp
      with Cons.prems(1) k have "platformKey p \<noteq> platformKey m" by auto
      with 2 show ?thesis by simp
    qed
  next
    case False
    then have k: "platformKey a \<noteq> platformKey m" by (simp add: samePlatform_key)
    from Cons.prems(2) False consider "p = a" | "p \<in> set (overwriteFound m L)" by auto
    then show ?thesis
    proof cases
      case 1
      with k show ?thesis by simp
    next
      case 2
      from Cons.prems(1) have "distinct (map platformKey L)" by simp
      from Cons.IH[OF this 2] show ?thesis by (simp split: if_splits)
    qed
  qed
qed

lemma mergeStep_mem:
  assumes "distinct (map platformKey L)" "p \<in> set (mergeStep L m)"
  shows "if platformKey p = platformKey m
      then version p = version m \<and> rootBoardPath p = rootBoardPath m \<and> defaultPlatform p = defaultPlatform m
      else p \<in> set L"
proof (cases "find (\<lambda>p. samePlatform p m) L")
  case None
  then have nk: "platformKey m \<notin> set (map platformKey L)" using find_None_keys[of m L] by simp
  from None assms(2) consider "p \<in> set L" | "p = m" by (auto simp: mergeStep_def)
  then show ?thesis
  proof cases
    case 1
    then have "platformKey p \<in> set (map platformKey L)" by simp
    with nk have "platformKey p \<noteq> platformKey m" by metis
    with 1 show ?thesis by simp
  next
    case 2
    then show ?thesis by simp
  qed
next
  case (Some a)
  with assms(2) have "p \<in> set (overwriteFound m L)" by (simp add: mergeStep_def)
  from overwriteFound_mem[OF assms(1) this] show ?thesis .
qed

lemma manualFor_None: "manualFor M k = None \<longleftrightarrow> k \<notin> set (map platformKey M)"
  by (auto simp: manualFor_def Let_def filter_empty_conv)

lemma mergeManual_inv:
  "distinct (map platformKey defaults) \<Longrightarrow> mergedInv defaults manual (mergeManual defaults manual)"
proof (induction manual rule: rev_induct)
  case Nil
  then show ?case by (simp add: mergedInv_def manualFor_def)
next
  case (snoc m M)
  let ?L = "mergeManual defaults M"
  from snoc have inv: "mergedInv defaults M ?L" by simp
  then have d: "distinct (map platformKey ?L)" by (simp add: mergedInv_def)
  have 1: "distinct (map platformKey (mergeStep ?L m))" by (rule mergeStep_distinct[OF d])
  have 2: "set (map platformKey (mergeStep ?L m)) = set (map platformKey defaults) \<union> set (map platformKey (M @ [m]))"
    using inv by (simp add: mergeStep_keys mergedInv_def)
  have 3: "case manualFor (M @ [m]) (platformKey p) of
          Some m \<Rightarrow> version p = version m \<and> rootBoardPath p = rootBoardPath m \<and> defaultPlatform p = defaultPlatform m
        | None \<Rightarrow> p \<in> set defaults" if "p \<in> set (mergeStep ?L m)" for p
  proof (cases "platformKey p = platformKey m")
    case True
    with mergeStep_mem[OF d that] show ?thesis by (simp add: manualFor_snoc)
  next
    case False
    with mergeStep_mem[OF d that] have "p \<in> set ?L" by simp
    with inv False show ?thesis by (auto simp: mergedInv_def manualFor_snoc)
  qed
  show ?case unfolding mergeManual_snoc mergedInv_def using 1 2 3 by blast
qed

lemma manualFor_Some:
  "manualFor M k = Some m \<Longrightarrow> m \<in> set M \<and> platformKey m = k"
proof -
  assume a: "manualFor M k = Some m"
  let ?ms = "filter (\<lambda>m. platformKey m = k) M"
  from a have ne: "?ms \<noteq> []" and m: "m = last ?ms"
    by (simp_all add: manualFor_def Let_def split: if_splits)
  from ne have "last ?ms \<in> set ?ms" by (rule last_in_set)
  with m show ?thesis by simp
qed

text \<open>
  Where no (packageName, architecture) pair occurs twice among the bundled default
  platforms, the merge does what C2 says: \<^verbatim>\<open>getInstalledPlatforms\<close> returns a list with exactly one
  entry for every pair of either list and for no other pair. The entry of a pair that is
  manually installed has the version, \<^verbatim>\<open>rootBoardPath\<close> and \<^verbatim>\<open>defaultPlatform\<close> of the manually
  installed platform (\<open>manualFor\<close>), whether or not the pair is bundled as well; the entry of
  any other pair is an entry of the default list. A default entry whose pair is not
  manually installed is in the result as it was, and an entry whose pair is not bundled
  is an entry of the manual list as it was.
\<close>

theorem getInstalledPlatforms_manual_overrides:
  assumes "getDefaultPlatforms E defaultPackagePath = Inr defaults"
    and "getManuallyInstalledPlatforms E packagePath = Inr manual"
    and "distinct (map platformKey defaults)"
  shows "\<exists>R. getInstalledPlatforms E defaultPackagePath packagePath = Inr R \<and>
     distinct (map platformKey R) \<and>
     set (map platformKey R) = set (map platformKey defaults) \<union> set (map platformKey manual) \<and>
     (\<forall>p\<in>set R.
        case manualFor manual (platformKey p) of
          Some m \<Rightarrow> version p = version m \<and> rootBoardPath p = rootBoardPath m \<and>
                     defaultPlatform p = defaultPlatform m
        | None \<Rightarrow> p \<in> set defaults) \<and>
     (\<forall>d\<in>set defaults. platformKey d \<notin> set (map platformKey manual) \<longrightarrow> d \<in> set R) \<and>
     (\<forall>p\<in>set R. platformKey p \<notin> set (map platformKey defaults) \<longrightarrow> p \<in> set manual)"
proof -
  let ?R = "mergeManual defaults manual"
  have run: "getInstalledPlatforms E defaultPackagePath packagePath = Inr ?R"
    using assms(1,2) by (simp add: getInstalledPlatforms_def)
  have inv: "mergedInv defaults manual ?R" by (rule mergeManual_inv[OF assms(3)])
  then have d: "distinct (map platformKey ?R)"
    and k: "set (map platformKey ?R) = set (map platformKey defaults) \<union> set (map platformKey manual)"
    and f: "\<And>p. p \<in> set ?R \<Longrightarrow> (case manualFor manual (platformKey p) of
          Some m \<Rightarrow> version p = version m \<and> rootBoardPath p = rootBoardPath m \<and>
                     defaultPlatform p = defaultPlatform m
        | None \<Rightarrow> p \<in> set defaults)"
    unfolding mergedInv_def by blast+
  have only_default: "d \<in> set ?R" if "d \<in> set defaults" "platformKey d \<notin> set (map platformKey manual)" for d
  proof -
    from that(1) k have "platformKey d \<in> set (map platformKey ?R)" by simp
    then obtain p where p: "p \<in> set ?R" "platformKey p = platformKey d" by auto
    from that(2) p(2) have "manualFor manual (platformKey p) = None" by (simp add: manualFor_None)
    with f[OF p(1)] have pd: "p \<in> set defaults" by simp
    from assms(3) pd that(1) p(2) have "p = d" by (meson distinct_map inj_onD)
    with p(1) show ?thesis by simp
  qed
  have only_manual: "p \<in> set manual" if "p \<in> set ?R" "platformKey p \<notin> set (map platformKey defaults)" for p
  proof (cases "manualFor manual (platformKey p)")
    case None
    with f[OF that(1)] have "p \<in> set defaults" by simp
    with that(2) show ?thesis by simp
  next
    case (Some m)
    from manualFor_Some[OF Some] have m: "m \<in> set manual" "platformKey m = platformKey p" by simp_all
    from f[OF that(1)] Some have "version p = version m \<and> rootBoardPath p = rootBoardPath m \<and>
                     defaultPlatform p = defaultPlatform m" by simp
    with m(2) have "p = m" by (simp add: platformKey_def)
    with m(1) show ?thesis by simp
  qed
  show ?thesis
  proof (intro exI conjI)
    show "getInstalledPlatforms E defaultPackagePath packagePath = Inr ?R" by (rule run)
    show "distinct (map platformKey ?R)" by (rule d)
    show "set (map platformKey ?R) = set (map platformKey defaults) \<union> set (map platformKey manual)"
      by (rule k)
    show "\<forall>p\<in>set ?R.
        case manualFor manual (platformKey p) of
          Some m \<Rightarrow> version p = version m \<and> rootBoardPath p = rootBoardPath m \<and>
                     defaultPlatform p = defaultPlatform m
        | None \<Rightarrow> p \<in> set defaults"
      using f by blast
    show "\<forall>d\<in>set defaults. platformKey d \<notin> set (map platformKey manual) \<longrightarrow> d \<in> set ?R"
      using only_default by blast
    show "\<forall>p\<in>set ?R. platformKey p \<notin> set (map platformKey defaults) \<longrightarrow> p \<in> set manual"
      using only_manual by blast
  qed
qed


theorem getInstalledPlatforms_manual_overrides_witness:
  "getDefaultPlatforms exampleEnv [''ide'', ''hardware''] = Inr exampleDefaults \<and>
   getManuallyInstalledPlatforms exampleEnv [''home''] = Inr exampleManual \<and>
   distinct (map platformKey exampleDefaults) \<and>
   (\<exists>R. getInstalledPlatforms exampleEnv [''ide'', ''hardware''] [''home''] = Inr R \<and>
      distinct (map platformKey R) \<and>
      map platformKey R = [(''arduino'', ''avr''), (''arduino'', ''sam''), (''esp8266'', ''esp8266'')] \<and>
      map version R = [JStr ''1.6.15'', JStr ''1.6.4'', JStr ''2.3.0''] \<and>
      map defaultPlatform R = [False, True, False])"
proof -
  have dist: "distinct (map platformKey exampleDefaults)"
    by (simp add: platformKey_def exampleDefaults_def)
  from getInstalledPlatforms_manual_overrides[OF example_defaults example_manual dist]
  obtain R where R: "getInstalledPlatforms exampleEnv [''ide'', ''hardware''] [''home''] = Inr R"
    and d: "distinct (map platformKey R)"
    by blast
  from R have val: "R = mergeManual exampleDefaults exampleManual"
    by (simp add: getInstalledPlatforms_def example_defaults example_manual)
  have k: "map platformKey R = [(''arduino'', ''avr''), (''arduino'', ''sam''), (''esp8266'', ''esp8266'')]"
    unfolding val by (simp add: mergeStep_def samePlatform_def platformKey_def exampleDefaults_def exampleManual_def)
  have v: "map version R = [JStr ''1.6.15'', JStr ''1.6.4'', JStr ''2.3.0'']"
    unfolding val by (simp add: mergeStep_def samePlatform_def exampleDefaults_def exampleManual_def)
  have dp: "map defaultPlatform R = [False, True, False]"
    unfolding val by (simp add: mergeStep_def samePlatform_def exampleDefaults_def exampleManual_def)
  from R d k v dp have "\<exists>R. getInstalledPlatforms exampleEnv [''ide'', ''hardware''] [''home''] = Inr R \<and>
      distinct (map platformKey R) \<and>
      map platformKey R = [(''arduino'', ''avr''), (''arduino'', ''sam''), (''esp8266'', ''esp8266'')] \<and>
      map version R = [JStr ''1.6.15'', JStr ''1.6.4'', JStr ''2.3.0''] \<and>
      map defaultPlatform R = [False, True, False]"
    by (intro exI[of _ R] conjI)
  with example_defaults example_manual dist show ?thesis by (intro conjI)
qed


text \<open>
  C2 fails on the code when the bundled index lists a platform twice. The pair
  \<^verbatim>\<open>arduino/avr\<close> is bundled (versions 1.6.11 and 1.6.12) and manually installed (1.6.15),
  and the result has two entries for it, where C2 says exactly one, with the fields of the
  manually installed platform. \<^verbatim>\<open>find\<close> stops at the first entry of the pair, so the second
  keeps the bundled version, the bundled \<^verbatim>\<open>rootBoardPath\<close> and \<^verbatim>\<open>defaultPlatform\<close> true, against
  the comment of the function: always using manually installed platforms to overwrite
  the same platform from the installation directory.
\<close>

theorem getInstalledPlatforms_stale_default:
  "getDefaultPlatforms twoVersionsEnv [''ide'', ''hardware''] = Inr [
     \<lparr> packageName = ''arduino'', architecture = ''avr'', version = JStr ''1.6.11'',
       rootBoardPath = [''ide'', ''hardware'', ''arduino'', ''avr''], defaultPlatform = True \<rparr>,
     \<lparr> packageName = ''arduino'', architecture = ''avr'', version = JStr ''1.6.12'',
       rootBoardPath = [''ide'', ''hardware'', ''arduino'', ''avr''], defaultPlatform = True \<rparr>] \<and>
   getManuallyInstalledPlatforms twoVersionsEnv [''home''] = Inr [
     \<lparr> packageName = ''arduino'', architecture = ''avr'', version = JStr ''1.6.15'',
       rootBoardPath = [''home'', ''packages'', ''arduino'', ''hardware'', ''avr'', ''1.6.15''],
       defaultPlatform = False \<rparr>,
     \<lparr> packageName = ''esp8266'', architecture = ''esp8266'', version = JStr ''2.3.0'',
       rootBoardPath = [''home'', ''packages'', ''esp8266'', ''hardware'', ''esp8266'', ''2.3.0''],
       defaultPlatform = False \<rparr>] \<and>
   getInstalledPlatforms twoVersionsEnv [''ide'', ''hardware''] [''home''] = Inr [
     \<lparr> packageName = ''arduino'', architecture = ''avr'', version = JStr ''1.6.15'',
       rootBoardPath = [''home'', ''packages'', ''arduino'', ''hardware'', ''avr'', ''1.6.15''],
       defaultPlatform = False \<rparr>,
     \<lparr> packageName = ''arduino'', architecture = ''avr'', version = JStr ''1.6.12'',
       rootBoardPath = [''ide'', ''hardware'', ''arduino'', ''avr''], defaultPlatform = True \<rparr>,
     \<lparr> packageName = ''esp8266'', architecture = ''esp8266'', version = JStr ''2.3.0'',
       rootBoardPath = [''home'', ''packages'', ''esp8266'', ''hardware'', ''esp8266'', ''2.3.0''],
       defaultPlatform = False \<rparr>]"
  by (simp add: getInstalledPlatforms_def getDefaultPlatforms_def getDefaultPlatforms_try_def
      getManuallyInstalledPlatforms_def twoVersionsEnv_def twoVersionsObject_def example_defs
      defaultEntry_def filterJunk_def mergeStep_def samePlatform_def)

section \<open>The board registry (\<^verbatim>\<open>parseBoardDescriptorFile\<close>)\<close>

lemma splitOn_cong: "(\<And>c. c \<in> set d \<Longrightarrow> sep1 c = sep2 c) \<Longrightarrow> splitOn sep1 d = splitOn sep2 d"
  by (induction d) simp_all

lemma splitLines_no_bar:
  "CHR ''|'' \<notin> set d \<Longrightarrow> splitOn isLineSeparator d = descriptorLines d"
  unfolding descriptorLines_def
  by (rule splitOn_cong) (auto simp: isLineSeparator_def isLineBreak_def)

lemma regexMatches_ignored:
  "regexMatches ls = List.map_filter boardLineRegex_exec (filter (\<lambda>l. \<not> ignoredLine l) ls)"
  by (simp add: regexMatches_def ignoredLine_def)

lemma foldl_processLine:
  "foldl (processLine plat) R ls = foldl (applyMatch plat) R (regexMatches ls)"
proof (induction ls arbitrary: R)
  case Nil
  then show ?case by (simp add: regexMatches_ignored List.map_filter_simps)
next
  case (Cons l ls)
  show ?case
  proof (cases "ignoredLine l")
    case True
    then have "processLine plat R l = R" by (simp add: processLine_def ignoredLine_def)
    moreover from True have "regexMatches (l # ls) = regexMatches ls" by (simp add: regexMatches_ignored)
    ultimately show ?thesis using Cons.IH by simp
  next
    case False
    show ?thesis
    proof (cases "boardLineRegex_exec l")
      case None
      with False have "processLine plat R l = R" by (simp add: processLine_def ignoredLine_def)
      moreover from False None have "regexMatches (l # ls) = regexMatches ls"
        by (simp add: regexMatches_ignored List.map_filter_simps)
      ultimately show ?thesis using Cons.IH by simp
    next
      case (Some m)
      with False have "processLine plat R l = applyMatch plat R m" by (simp add: processLine_def ignoredLine_def)
      moreover from False Some have "regexMatches (l # ls) = m # regexMatches ls"
        by (simp add: regexMatches_ignored List.map_filter_simps)
      ultimately show ?thesis using Cons.IH by simp
    qed
  qed
qed

lemma lastValue_snoc [simp]: "lastValue (xs @ [x]) = Some x"
  by (simp add: lastValue_def)

lemma displayName_snoc:
  "displayName (es @ [(p0, s0, v0)]) p =
     (if p = p0 \<and> s0 = ''name'' then Some (trim v0) else displayName es p)"
  by (auto simp: displayName_def)

lemma storedParameter_snoc:
  "storedParameter (es @ [(p0, s0, v0)]) p s =
     (if p = p0 \<and> s = s0 \<and> s0 \<noteq> ''name'' then Some v0 else storedParameter es p s)"
  by (auto simp: storedParameter_def)

lemma displayName_none: "p \<notin> fst ` set es \<Longrightarrow> displayName es p = None"
  by (auto simp: displayName_def lastValue_def filter_empty_conv)

lemma storedParameter_none: "p \<notin> fst ` set es \<Longrightarrow> storedParameter es p s = None"
  by (auto simp: storedParameter_def lastValue_def filter_empty_conv)

lemma applyMatch_inv:
  assumes "registryInv plat es R"
  shows "registryInv plat (es @ [m]) (applyMatch plat R m)"
proof -
  obtain p0 s0 v0 where m: "m = (p0, s0, v0)" by (cases m) auto
  have at: "case R p of
        None \<Rightarrow> p \<notin> fst ` set es
      | Some b \<Rightarrow> p \<in> fst ` set es \<and> board b = p \<and> platform b = plat \<and>
                 board_name b = displayName es p \<and> parameters b = storedParameter es p" for p
    using assms unfolding registryInv_def by blast
  show ?thesis
    unfolding registryInv_def
  proof
    fix p
    show "case applyMatch plat R m p of
        None \<Rightarrow> p \<notin> fst ` set (es @ [m])
      | Some b \<Rightarrow> p \<in> fst ` set (es @ [m]) \<and> board b = p \<and> platform b = plat \<and>
                 board_name b = displayName (es @ [m]) p \<and> parameters b = storedParameter (es @ [m]) p"
    proof (cases "p = p0")
      case False
      then have "applyMatch plat R m p = R p" by (simp add: applyMatch_def m Let_def)
      moreover have "displayName (es @ [m]) p = displayName es p"
        using False by (simp add: m displayName_snoc)
      moreover have "storedParameter (es @ [m]) p = storedParameter es p"
        using False by (simp add: m storedParameter_snoc fun_eq_iff)
      ultimately show ?thesis using at[of p] False by (simp add: m split: option.splits)
    next
      case True
      show ?thesis
      proof (cases "R p0")
        case None
        with at[of p0] have fresh: "p0 \<notin> fst ` set es" by simp
        show ?thesis
          using True None displayName_none[OF fresh] storedParameter_none[OF fresh]
          by (auto simp: applyMatch_def m Let_def displayName_snoc storedParameter_snoc fun_eq_iff)
      next
        case (Some b)
        with at[of p0] have b: "board b = p0" "platform b = plat"
          "board_name b = displayName es p0" "parameters b = storedParameter es p0" by simp_all
        show ?thesis
          using True Some b
          by (auto simp: applyMatch_def m Let_def displayName_snoc storedParameter_snoc fun_eq_iff)
      qed
    qed
  qed
qed

lemma foldl_applyMatch_inv: "registryInv plat es (foldl (applyMatch plat) Map.empty es)"
proof (induction es rule: rev_induct)
  case Nil
  then show ?case by (simp add: registryInv_def)
next
  case (snoc m es)
  then show ?case using applyMatch_inv[of plat es _ m] by simp
qed

lemma parseLines_inv: "registryInv plat (regexMatches ls) (foldl (processLine plat) Map.empty ls)"
  by (simp add: foldl_processLine foldl_applyMatch_inv)

subsection \<open>What a match looks like\<close>









subsection \<open>The example descriptors\<close>

lemmas regex_defs = matchAt_def isWhiteSpace_def dotPlus_def isLineTerminator_def

lemma example_lines:
  "splitOn isLineSeparator exampleDescriptor = [
     ''# boards'',
     ''menu.cpu=Processor'',
     ''uno.name= Arduino Uno '',
     ''uno.build.mcu=atmega328p'',
     ''uno.note= keep '',
     ''uno.name=Genuino Uno'',
     ''mega.menu.cpu.m2560=ATmega2560'', []]"
  by (simp add: exampleDescriptor_def unlines_def isLineSeparator_def)

lemma example_entries:
  "regexMatches (splitOn isLineSeparator exampleDescriptor) = [
     (''uno'', ''name'', '' Arduino Uno ''),
     (''uno'', ''build.mcu'', ''atmega328p''),
     (''uno'', ''note'', '' keep ''),
     (''uno'', ''name'', ''Genuino Uno''),
     (''mega'', ''menu.cpu.m2560'', ''ATmega2560'')]"
  unfolding example_lines
  by (simp add: regexMatches_ignored ignoredLine_def startsWith_def List.map_filter_simps regex_defs)

lemma example_uno:
  "\<exists>b. parseBoardDescriptorFile exampleDescriptor ''arduino:avr'' ''uno'' = Some b"
proof -
  have "''uno'' \<in> fst ` set (regexMatches (splitOn isLineSeparator exampleDescriptor))"
    unfolding example_entries by simp
  moreover have "registryInv ''arduino:avr'' (regexMatches (splitOn isLineSeparator exampleDescriptor))
      (parseBoardDescriptorFile exampleDescriptor ''arduino:avr'')"
    unfolding parseBoardDescriptorFile_def by (rule parseLines_inv)
  ultimately show ?thesis
    unfolding registryInv_def
    by (cases "parseBoardDescriptorFile exampleDescriptor ''arduino:avr'' ''uno''")
       (auto split: option.splits dest: spec[of _ "''uno''"])
qed

lemma example_no_bar: "CHR ''|'' \<notin> set exampleDescriptor"
  by (simp add: exampleDescriptor_def unlines_def)

lemma menu_lines: "splitOn isLineSeparator menuDescriptor = [''menu.cpu=Processor'', ''uno.name=Arduino Uno'', []]"
  by (simp add: menuDescriptor_def unlines_def isLineSeparator_def)

lemma plain_lines: "splitOn isLineSeparator plainDescriptor = [''uno.name=Arduino Uno'', []]"
  by (simp add: plainDescriptor_def unlines_def isLineSeparator_def)

subsection \<open>The registry\<close>

text \<open>
  C9. In the map \<^verbatim>\<open>parseBoardDescriptorFile\<close> returns, every key is the \<^verbatim>\<open>board\<close> field of
  the board it maps to, and every board's \<^verbatim>\<open>platform\<close> field is the platform passed in.
\<close>

theorem parseBoardDescriptorFile_keys:
  "parseBoardDescriptorFile boardDescriptor plat k = Some b \<Longrightarrow> board b = k \<and> platform b = plat"
proof -
  assume a: "parseBoardDescriptorFile boardDescriptor plat k = Some b"
  have "registryInv plat (regexMatches (splitOn isLineSeparator boardDescriptor))
          (parseBoardDescriptorFile boardDescriptor plat)"
    unfolding parseBoardDescriptorFile_def by (rule parseLines_inv)
  then have "case parseBoardDescriptorFile boardDescriptor plat k of
        None \<Rightarrow> True | Some b \<Rightarrow> board b = k \<and> platform b = plat"
    unfolding registryInv_def by (auto split: option.splits)
  with a show ?thesis by simp
qed


theorem parseBoardDescriptorFile_keys_witness:
  "\<exists>b. parseBoardDescriptorFile exampleDescriptor ''arduino:avr'' ''uno'' = Some b \<and>
       board b = ''uno'' \<and> platform b = ''arduino:avr''"
proof -
  from example_uno obtain b
    where b: "parseBoardDescriptorFile exampleDescriptor ''arduino:avr'' ''uno'' = Some b" by blast
  from parseBoardDescriptorFile_keys[OF b] b show ?thesis by blast
qed














text \<open>
  Outside the well-formed descriptors the parser departs from this reading: it also cuts
  the text at a vertical bar, and it lets the suffix run to the last \<^verbatim>\<open>=\<close> before the first
  white space. The theorem above says nothing about such lines.
\<close>

lemma parseBoardDescriptorFile_left_out:
  "lineFields ''uno.name=A|B'' = Some (''uno'', ''name'', ''A|B'') \<and>
   \<not> wellFormedDescriptor ''uno.name=A|B'' \<and>
   parseBoardDescriptorFile ''uno.name=A|B'' () =
     [''uno'' \<mapsto> \<lparr> board = ''uno'', board_name = Some ''A'', parameters = Map.empty, platform = () \<rparr>] \<and>
   lineFields ''uno.build.extra_flags=-DA=1'' = Some (''uno'', ''build.extra_flags'', ''-DA=1'') \<and>
   \<not> wellFormedDescriptor ''uno.build.extra_flags=-DA=1'' \<and>
   parseBoardDescriptorFile ''uno.build.extra_flags=-DA=1'' () =
     [''uno'' \<mapsto> \<lparr> board = ''uno'', board_name = None,
                  parameters = [''build.extra_flags=-DA'' \<mapsto> ''1''], platform = () \<rparr>]"
  by (simp add: lineFields_def wellFormedDescriptor_def wellFormedLine_def descriptorLines_def
      isLineBreak_def ignoredLine_def parseBoardDescriptorFile_def processLine_def applyMatch_def
      startsWith_def isLineSeparator_def trim_def regex_defs)


text \<open>
  C4, as the code has it. \<^verbatim>\<open>parseBoardDescriptorFile\<close> builds no configuration menus: the
  lines that start with \<^verbatim>\<open>menu.\<close> leave no trace in the registry. Two descriptors without a
  vertical bar whose lines differ only in lines that start with \<^verbatim>\<open>menu.\<close> are parsed to the
  same registry.
\<close>

theorem menu_lines_ignored:
  assumes "CHR ''|'' \<notin> set d1" and "CHR ''|'' \<notin> set d2"
    and "filter (\<lambda>l. \<not> startsWith l ''menu.'') (descriptorLines d1) =
         filter (\<lambda>l. \<not> startsWith l ''menu.'') (descriptorLines d2)"
  shows "parseBoardDescriptorFile d1 plat = parseBoardDescriptorFile d2 plat"
proof -
  have e: "regexMatches ls = regexMatches (filter (\<lambda>l. \<not> startsWith l ''menu.'') ls)" for ls
  proof -
    have "filter (\<lambda>l. \<not> ignoredLine l) (filter (\<lambda>l. \<not> startsWith l ''menu.'') ls) =
          filter (\<lambda>l. \<not> ignoredLine l) ls"
      by (induction ls) (auto simp: ignoredLine_def)
    then show ?thesis by (simp only: regexMatches_ignored)
  qed
  have "regexMatches (descriptorLines d1) = regexMatches (descriptorLines d2)"
    using e[of "descriptorLines d1"] e[of "descriptorLines d2"] assms(3) by simp
  then have "regexMatches (splitOn isLineSeparator d1) = regexMatches (splitOn isLineSeparator d2)"
    unfolding splitLines_no_bar[OF assms(1)] splitLines_no_bar[OF assms(2)] .
  then show ?thesis by (simp add: parseBoardDescriptorFile_def foldl_processLine)
qed


theorem menu_lines_ignored_witness:
  "CHR ''|'' \<notin> set menuDescriptor \<and> CHR ''|'' \<notin> set plainDescriptor \<and>
   descriptorLines menuDescriptor = [''menu.cpu=Processor'', ''uno.name=Arduino Uno'', []] \<and>
   descriptorLines plainDescriptor = [''uno.name=Arduino Uno'', []] \<and>
   filter (\<lambda>l. \<not> startsWith l ''menu.'') (descriptorLines menuDescriptor) =
   filter (\<lambda>l. \<not> startsWith l ''menu.'') (descriptorLines plainDescriptor) \<and>
   menuDescriptor \<noteq> plainDescriptor \<and>
   parseBoardDescriptorFile menuDescriptor ''arduino:avr'' = parseBoardDescriptorFile plainDescriptor ''arduino:avr''"
proof -
  have b1: "CHR ''|'' \<notin> set menuDescriptor" by (simp add: menuDescriptor_def unlines_def)
  have b2: "CHR ''|'' \<notin> set plainDescriptor" by (simp add: plainDescriptor_def unlines_def)
  have l1: "descriptorLines menuDescriptor = [''menu.cpu=Processor'', ''uno.name=Arduino Uno'', []]"
    by (simp add: menuDescriptor_def unlines_def descriptorLines_def isLineBreak_def)
  have l2: "descriptorLines plainDescriptor = [''uno.name=Arduino Uno'', []]"
    by (simp add: plainDescriptor_def unlines_def descriptorLines_def isLineBreak_def)
  have h: "filter (\<lambda>l. \<not> startsWith l ''menu.'') (descriptorLines menuDescriptor) =
        filter (\<lambda>l. \<not> startsWith l ''menu.'') (descriptorLines plainDescriptor)"
    unfolding l1 l2 by (simp add: startsWith_def)
  have ne: "menuDescriptor \<noteq> plainDescriptor"
    by (simp add: menuDescriptor_def plainDescriptor_def unlines_def)
  from b1 b2 l1 l2 h ne menu_lines_ignored[OF b1 b2 h, of "''arduino:avr''"] show ?thesis by (intro conjI)
qed

text \<open>
  C4 as stated fails: the descriptor declares the menu \<^verbatim>\<open>cpu\<close> with the title
  \<^verbatim>\<open>Processor\<close> in a line that starts with \<^verbatim>\<open>menu.\<close>, and the registry holds the board
  \<^verbatim>\<open>uno\<close> with its name and nothing else.
\<close>

theorem menu_not_recorded_counterexample:
  "descriptorLines menuDescriptor = [''menu.cpu=Processor'', ''uno.name=Arduino Uno'', []] \<and>
   startsWith ''menu.cpu=Processor'' ''menu.'' \<and>
   parseBoardDescriptorFile menuDescriptor () =
     [''uno'' \<mapsto> \<lparr> board = ''uno'', board_name = Some ''Arduino Uno'', parameters = Map.empty,
                  platform = () \<rparr>]"
  unfolding parseBoardDescriptorFile_def menu_lines
  by (simp add: processLine_def applyMatch_def startsWith_def trim_def regex_defs
      menuDescriptor_def unlines_def descriptorLines_def isLineBreak_def)

section \<open>The platforms of the index files (\<^verbatim>\<open>parsePackageIndex\<close>)\<close>

lemma foldl_concat_map:
  "foldl f s (concat (map g xs)) = foldl (\<lambda>s x. foldl f s (g x)) s xs"
  by (induction xs arbitrary: s) simp_all

lemma parsePackageIndex_entries:
  "parsePackageIndex rawModel ps =
     foldl (\<lambda>ps e. addPlatform (fst e) ps (snd e)) ps
       (concat (map (\<lambda>pkg. map (Pair (package_name pkg)) (package_platforms pkg)) (packages rawModel)))"
proof -
  have inner: "foldl (addPlatform n) ps pls = foldl (\<lambda>ps e. addPlatform (fst e) ps (snd e)) ps (map (Pair n) pls)"
    for n ps pls
    by (induction pls arbitrary: ps) simp_all
  show ?thesis
    unfolding parsePackageIndex_def foldl_concat_map by (simp add: inner)
qed

lemma loadIndexFiles_entries:
  "loadIndexFiles indexFiles = foldl (\<lambda>ps e. addPlatform (fst e) ps (snd e)) [] (indexEntries indexFiles)"
proof -
  have "foldl (\<lambda>ps rawModel. parsePackageIndex rawModel ps) s xs =
        foldl (\<lambda>ps e. addPlatform (fst e) ps (snd e)) s (indexEntries xs)" for s xs
    by (induction xs arbitrary: s) (simp_all add: indexEntries_def parsePackageIndex_entries)
  then show ?thesis by (simp add: loadIndexFiles_def)
qed

lemma isAdded_key: "isAddedPlatform n plat p \<longleftrightarrow> platKey p = entryKey (n, plat)"
  by (auto simp: isAddedPlatform_def platKey_def entryKey_def)

lemma mergeInto_keys: "map platKey (mergeInto n plat ps) = map platKey ps"
  by (induction ps) (simp_all add: platKey_def)

lemma find_isAdded_None: "find (isAddedPlatform n plat) ps = None \<longleftrightarrow> entryKey (n, plat) \<notin> set (map platKey ps)"
  by (induction ps) (auto simp: isAdded_key)

lemma entriesFor_snoc:
  "entriesFor (es @ [e]) k = (if entryKey e = k then entriesFor es k @ [snd e] else entriesFor es k)"
  by (simp add: entriesFor_def)

lemma unionBoards_snoc:
  "ps \<noteq> [] \<Longrightarrow> unionBoards (ps @ [plat]) = util_union (unionBoards ps) (entry_boards plat) sameBoardName"
  by (cases ps) (simp_all add: unionBoards_def)

lemma entriesFor_empty: "k \<notin> set (map entryKey es) \<Longrightarrow> entriesFor es k = []"
  by (auto simp: entriesFor_def filter_empty_conv)

lemma entriesFor_nonempty: "k \<in> set (map entryKey es) \<Longrightarrow> entriesFor es k \<noteq> []"
  by (auto simp: entriesFor_def filter_empty_conv)

lemma mergeInto_mem:
  "distinct (map platKey ps) \<Longrightarrow> q \<in> set (mergeInto n plat ps) \<Longrightarrow>
     (if platKey q = entryKey (n, plat)
      then \<exists>p\<in>set ps. platKey p = platKey q \<and> plat_version q = plat_version p \<and>
             plat_versions q = plat_versions p @ [entry_version plat] \<and>
             plat_boards q = util_union (plat_boards p) (entry_boards plat) sameBoardName
      else q \<in> set ps)"
proof (induction ps)
  case Nil
  then show ?case by simp
next
  case (Cons a ps)
  show ?case
  proof (cases "isAddedPlatform n plat a")
    case True
    then have k: "platKey a = entryKey (n, plat)" by (simp add: isAdded_key)
    from Cons.prems(2) True
    consider "q = a\<lparr> plat_boards := util_union (plat_boards a) (entry_boards plat) sameBoardName,
              plat_versions := plat_versions a @ [entry_version plat] \<rparr>" | "q \<in> set ps" by auto
    then show ?thesis
    proof cases
      case 1
      then have "platKey q = platKey a" by (simp add: platKey_def)
      with 1 k show ?thesis by simp
    next
      case 2
      then have "platKey q \<in> set (map platKey ps)" by simp
      with Cons.prems(1) k have "platKey q \<noteq> entryKey (n, plat)" by auto
      with 2 show ?thesis by simp
    qed
  next
    case False
    then have k: "platKey a \<noteq> entryKey (n, plat)" by (simp add: isAdded_key)
    from Cons.prems(2) False consider "q = a" | "q \<in> set (mergeInto n plat ps)" by auto
    then show ?thesis
    proof cases
      case 1
      with k show ?thesis by simp
    next
      case 2
      from Cons.prems(1) have "distinct (map platKey ps)" by simp
      from Cons.IH[OF this 2] show ?thesis by (auto split: if_splits)
    qed
  qed
qed

lemma addPlatform_inv:
  assumes inv: "platformsInv es ps"
  shows "platformsInv (es @ [(n, plat)]) (addPlatform n ps plat)"
proof -
  let ?k = "entryKey (n, plat)"
  from inv have d: "distinct (map platKey ps)"
    and ks: "set (map platKey ps) = set (map entryKey es)"
    and each: "\<And>p. p \<in> set ps \<Longrightarrow> plat_versions p = map entry_version (entriesFor es (platKey p)) \<and>
        plat_boards p = unionBoards (entriesFor es (platKey p)) \<and> plat_version p = []"
    unfolding platformsInv_def by blast+
  show ?thesis
  proof (cases "find (isAddedPlatform n plat) ps")
    case None
    then have fresh: "?k \<notin> set (map platKey ps)" by (simp add: find_isAdded_None)
    let ?new = "\<lparr> plat_architecture = entry_architecture plat, plat_version = [],
                         plat_versions = [entry_version plat], plat_boards = entry_boards plat,
                         plat_package = n \<rparr>"
    have add: "addPlatform n ps plat = ps @ [?new]" using None by (simp add: addPlatform_def)
    have kn: "platKey ?new = ?k" by (simp add: platKey_def entryKey_def)
    have 1: "distinct (map platKey (ps @ [?new]))" using d fresh kn by simp
    have 2: "set (map platKey (ps @ [?new])) = set (map entryKey (es @ [(n, plat)]))"
      using ks kn by simp
    have 3: "plat_versions p = map entry_version (entriesFor (es @ [(n, plat)]) (platKey p)) \<and>
        plat_boards p = unionBoards (entriesFor (es @ [(n, plat)]) (platKey p)) \<and> plat_version p = []"
      if "p \<in> set (ps @ [?new])" for p
    proof (cases "p \<in> set ps")
      case True
      then have "platKey p \<in> set (map platKey ps)" by simp
      with fresh have "platKey p \<noteq> ?k" by metis
      then have "entriesFor (es @ [(n, plat)]) (platKey p) = entriesFor es (platKey p)"
        by (simp add: entriesFor_snoc)
      with each[OF True] show ?thesis by simp
    next
      case False
      with that have p: "p = ?new" by simp
      from fresh ks have "entriesFor es ?k = []" by (simp add: entriesFor_empty)
      then have "entriesFor (es @ [(n, plat)]) (platKey p) = [plat]"
        unfolding p kn by (simp add: entriesFor_snoc)
      then show ?thesis by (simp add: p unionBoards_def)
    qed
    show ?thesis unfolding add platformsInv_def using 1 2 3 by blast
  next
    case (Some a)
    then have found: "?k \<in> set (map platKey ps)" using find_isAdded_None[of n plat ps] by simp
    have add: "addPlatform n ps plat = mergeInto n plat ps" using Some by (simp add: addPlatform_def)
    have 1: "distinct (map platKey (mergeInto n plat ps))" using d by (simp add: mergeInto_keys)
    have 2: "set (map platKey (mergeInto n plat ps)) = set (map entryKey (es @ [(n, plat)]))"
      using ks found by (auto simp: mergeInto_keys)
    have 3: "plat_versions q = map entry_version (entriesFor (es @ [(n, plat)]) (platKey q)) \<and>
        plat_boards q = unionBoards (entriesFor (es @ [(n, plat)]) (platKey q)) \<and> plat_version q = []"
      if "q \<in> set (mergeInto n plat ps)" for q
    proof (cases "platKey q = ?k")
      case True
      with mergeInto_mem[OF d that] obtain p where p: "p \<in> set ps" "platKey p = platKey q"
        "plat_version q = plat_version p"
        "plat_versions q = plat_versions p @ [entry_version plat]"
        "plat_boards q = util_union (plat_boards p) (entry_boards plat) sameBoardName" by auto
      from found ks have ne: "entriesFor es ?k \<noteq> []" by (simp add: entriesFor_nonempty)
      have ef: "entriesFor (es @ [(n, plat)]) (platKey q) = entriesFor es ?k @ [plat]"
        using True by (simp add: entriesFor_snoc)
      from each[OF p(1)] p True show ?thesis
        unfolding ef by (simp add: unionBoards_snoc[OF ne])
    next
      case False
      with mergeInto_mem[OF d that] have q: "q \<in> set ps" by simp
      from False have "entriesFor (es @ [(n, plat)]) (platKey q) = entriesFor es (platKey q)"
        by (simp add: entriesFor_snoc)
      with each[OF q] show ?thesis by simp
    qed
    show ?thesis unfolding add platformsInv_def using 1 2 3 by blast
  qed
qed

lemma foldl_addPlatform_inv:
  "platformsInv es (foldl (\<lambda>ps e. addPlatform (fst e) ps (snd e)) [] es)"
proof (induction es rule: rev_induct)
  case Nil
  then show ?case by (simp add: platformsInv_def)
next
  case (snoc e es)
  obtain n plat where e: "e = (n, plat)" by (cases e) auto
  from addPlatform_inv[OF snoc, of n plat] show ?case by (simp add: e)
qed

lemma loadIndexFiles_inv: "platformsInv (indexEntries indexFiles) (loadIndexFiles indexFiles)"
  unfolding loadIndexFiles_entries by (rule foldl_addPlatform_inv)

lemma util_union_names:
  "name ` set (util_union a b sameBoardName) = name ` set a \<union> name ` set b"
proof (induction b arbitrary: a)
  case Nil
  then show ?case by simp
next
  case (Cons item b)
  show ?case
  proof (cases "list_ex (sameBoardName item) a")
    case True
    then have "name item \<in> name ` set a" by (auto simp: list_ex_iff sameBoardName_def)
    with True Cons.IH[of a] show ?thesis by auto
  next
    case False
    with Cons.IH[of "a @ [item]"] show ?thesis by auto
  qed
qed

lemma util_union_distinct:
  "distinct (map name a) \<Longrightarrow> distinct (map name (util_union a b sameBoardName))"
proof (induction b arbitrary: a)
  case Nil
  then show ?case by simp
next
  case (Cons item b)
  show ?case
  proof (cases "list_ex (sameBoardName item) a")
    case True
    with Cons show ?thesis by simp
  next
    case False
    then have "name item \<notin> name ` set a" by (auto simp: list_ex_iff sameBoardName_def)
    with Cons.prems have "distinct (map name (a @ [item]))" by simp
    from Cons.IH[OF this] False show ?thesis by simp
  qed
qed

lemma util_union_prefix: "\<exists>added. util_union a b cmp = a @ added"
proof (induction b arbitrary: a)
  case Nil
  then show ?case by simp
next
  case (Cons item b)
  show ?case
  proof (cases "list_ex (cmp item) a")
    case True
    with Cons.IH[of a] show ?thesis by simp
  next
    case False
    from Cons.IH[of "a @ [item]"] obtain added where "util_union (a @ [item]) b cmp = (a @ [item]) @ added" by blast
    with False show ?thesis by simp
  qed
qed

lemma unionBoards_names:
  "name ` set (unionBoards ps) = (\<Union>plat\<in>set ps. name ` set (entry_boards plat))"
proof (induction ps rule: rev_induct)
  case Nil
  then show ?case by (simp add: unionBoards_def)
next
  case (snoc plat ps)
  show ?case
  proof (cases "ps = []")
    case True
    then show ?thesis by (simp add: unionBoards_def)
  next
    case False
    from unionBoards_snoc[OF False, of plat] snoc show ?thesis
      by (simp add: util_union_names Un_commute)
  qed
qed

lemma unionBoards_distinct:
  "ps \<noteq> [] \<Longrightarrow> distinct (map name (entry_boards (hd ps))) \<Longrightarrow> distinct (map name (unionBoards ps))"
proof (induction ps rule: rev_induct)
  case Nil
  then show ?case by simp
next
  case (snoc plat ps)
  show ?case
  proof (cases "ps = []")
    case True
    with snoc.prems show ?thesis by (simp add: unionBoards_def)
  next
    case False
    with snoc have "distinct (map name (unionBoards ps))" by simp
    then show ?thesis unfolding unionBoards_snoc[OF False] by (rule util_union_distinct)
  qed
qed

lemma example_load:
  "loadIndexFiles [arduinoIndex, arduinoUpdateIndex, adafruitIndex] = [
     \<lparr> plat_architecture = ''avr'', plat_version = [], plat_versions = [''1.6.2'', ''1.6.3''],
       plat_boards = [\<lparr> name = ''Arduino Uno'' \<rparr>, \<lparr> name = ''Arduino Mega'' \<rparr>,
                      \<lparr> name = ''Arduino Leonardo'' \<rparr>],
       plat_package = ''arduino'' \<rparr>,
     \<lparr> plat_architecture = ''avr'', plat_version = [], plat_versions = [''1.4.0''],
       plat_boards = [\<lparr> name = ''Adafruit Flora'' \<rparr>], plat_package = ''adafruit'' \<rparr>]"
  by (simp add: loadIndexFiles_def parsePackageIndex_def addPlatform_def isAddedPlatform_def
      sameBoardName_def arduinoIndex_def arduinoUpdateIndex_def adafruitIndex_def)

text \<open>
  C1, as the code has it. After the index files are parsed, the platform entries of the
  same package name and the same architecture, wherever they appear, are merged into a
  single platform. Its versions list holds the version of every merged entry, in the
  order of the entries. Its boards field is the \<^verbatim>\<open>util.union\<close>, by board name, of the board
  lists of the merged entries: the board names are exactly the names of the boards of the
  merged entries, and no name appears twice unless it does so in the board list of the
  first entry.
\<close>

theorem loadIndexFiles_merges:
  "distinct (map platKey (loadIndexFiles indexFiles)) \<and>
   set (map platKey (loadIndexFiles indexFiles)) = set (map entryKey (indexEntries indexFiles)) \<and>
   (\<forall>p\<in>set (loadIndexFiles indexFiles).
      plat_versions p = map entry_version (entriesFor (indexEntries indexFiles) (platKey p)) \<and>
      plat_boards p = unionBoards (entriesFor (indexEntries indexFiles) (platKey p)) \<and>
      name ` set (plat_boards p) =
        (\<Union>plat\<in>set (entriesFor (indexEntries indexFiles) (platKey p)). name ` set (entry_boards plat)) \<and>
      (distinct (map name (entry_boards (hd (entriesFor (indexEntries indexFiles) (platKey p))))) \<longrightarrow>
         distinct (map name (plat_boards p))))"
proof -
  let ?es = "indexEntries indexFiles"
  let ?ps = "loadIndexFiles indexFiles"
  have inv: "platformsInv ?es ?ps" by (rule loadIndexFiles_inv)
  then have d: "distinct (map platKey ?ps)" and ks: "set (map platKey ?ps) = set (map entryKey ?es)"
    and each: "\<And>p. p \<in> set ?ps \<Longrightarrow> plat_versions p = map entry_version (entriesFor ?es (platKey p)) \<and>
        plat_boards p = unionBoards (entriesFor ?es (platKey p))"
    unfolding platformsInv_def by blast+
  have all: "plat_versions p = map entry_version (entriesFor ?es (platKey p)) \<and>
      plat_boards p = unionBoards (entriesFor ?es (platKey p)) \<and>
      name ` set (plat_boards p) = (\<Union>plat\<in>set (entriesFor ?es (platKey p)). name ` set (entry_boards plat)) \<and>
      (distinct (map name (entry_boards (hd (entriesFor ?es (platKey p))))) \<longrightarrow>
         distinct (map name (plat_boards p)))" if p: "p \<in> set ?ps" for p
  proof -
    from p ks have "platKey p \<in> set (map entryKey ?es)" by auto
    then have ne: "entriesFor ?es (platKey p) \<noteq> []" by (rule entriesFor_nonempty)
    from each[OF p] have v: "plat_versions p = map entry_version (entriesFor ?es (platKey p))"
      and b: "plat_boards p = unionBoards (entriesFor ?es (platKey p))" by simp_all
    have n: "name ` set (plat_boards p) = (\<Union>plat\<in>set (entriesFor ?es (platKey p)). name ` set (entry_boards plat))"
      unfolding b by (rule unionBoards_names)
    have dn: "distinct (map name (entry_boards (hd (entriesFor ?es (platKey p))))) \<longrightarrow>
         distinct (map name (plat_boards p))"
      unfolding b using unionBoards_distinct[OF ne] by blast
    from v b n dn show ?thesis by (intro conjI)
  qed
  from all have "\<forall>p\<in>set ?ps.
      plat_versions p = map entry_version (entriesFor ?es (platKey p)) \<and>
      plat_boards p = unionBoards (entriesFor ?es (platKey p)) \<and>
      name ` set (plat_boards p) = (\<Union>plat\<in>set (entriesFor ?es (platKey p)). name ` set (entry_boards plat)) \<and>
      (distinct (map name (entry_boards (hd (entriesFor ?es (platKey p))))) \<longrightarrow>
         distinct (map name (plat_boards p)))" by blast
  with d ks show ?thesis by (intro conjI)
qed

theorem loadIndexFiles_merges_witness:
  "(\<exists>p\<in>set (loadIndexFiles [arduinoIndex, arduinoUpdateIndex, adafruitIndex]).
      platKey p = (''arduino'', ''avr'') \<and>
      plat_versions p = [''1.6.2'', ''1.6.3''] \<and>
      map name (plat_boards p) = [''Arduino Uno'', ''Arduino Mega'', ''Arduino Leonardo'']) \<and>
   distinct (map platKey (loadIndexFiles [arduinoIndex, arduinoUpdateIndex, adafruitIndex])) \<and>
   length (loadIndexFiles [arduinoIndex, arduinoUpdateIndex, adafruitIndex]) = 2"
proof -
  let ?ps = "loadIndexFiles [arduinoIndex, arduinoUpdateIndex, adafruitIndex]"
  let ?p = "\<lparr> plat_architecture = ''avr'', plat_version = [], plat_versions = [''1.6.2'', ''1.6.3''],
       plat_boards = [\<lparr> name = ''Arduino Uno'' \<rparr>, \<lparr> name = ''Arduino Mega'' \<rparr>,
                      \<lparr> name = ''Arduino Leonardo'' \<rparr>],
       plat_package = ''arduino'' \<rparr>"
  have es: "indexEntries [arduinoIndex, arduinoUpdateIndex, adafruitIndex] = [
     (''arduino'', \<lparr> entry_architecture = ''avr'', entry_version = ''1.6.2'',
          entry_boards = [\<lparr> name = ''Arduino Uno'' \<rparr>, \<lparr> name = ''Arduino Mega'' \<rparr>] \<rparr>),
     (''arduino'', \<lparr> entry_architecture = ''avr'', entry_version = ''1.6.3'',
          entry_boards = [\<lparr> name = ''Arduino Uno'' \<rparr>, \<lparr> name = ''Arduino Leonardo'' \<rparr>] \<rparr>),
     (''adafruit'', \<lparr> entry_architecture = ''avr'', entry_version = ''1.4.0'',
          entry_boards = [\<lparr> name = ''Adafruit Flora'' \<rparr>] \<rparr>)]"
    by (simp add: indexEntries_def arduinoIndex_def arduinoUpdateIndex_def adafruitIndex_def)
  note main = loadIndexFiles_merges[of "[arduinoIndex, arduinoUpdateIndex, adafruitIndex]"]
  have mem: "?p \<in> set ?ps" by (simp add: example_load)
  have key: "platKey ?p = (''arduino'', ''avr'')" by (simp add: platKey_def)
  from main have d: "distinct (map platKey ?ps)" by blast
  from main mem have "plat_versions ?p =
      map entry_version (entriesFor (indexEntries [arduinoIndex, arduinoUpdateIndex, adafruitIndex]) (platKey ?p))"
    by blast
  then have v: "plat_versions ?p = [''1.6.2'', ''1.6.3'']" by simp
  have b: "map name (plat_boards ?p) = [''Arduino Uno'', ''Arduino Mega'', ''Arduino Leonardo'']" by simp
  have l: "length ?ps = 2" by (simp add: example_load)
  from mem key v b have "\<exists>p\<in>set ?ps. platKey p = (''arduino'', ''avr'') \<and>
      plat_versions p = [''1.6.2'', ''1.6.3''] \<and>
      map name (plat_boards p) = [''Arduino Uno'', ''Arduino Mega'', ''Arduino Leonardo'']"
    by (intro bexI[of _ ?p] conjI)
  with d l show ?thesis by (intro conjI)
qed

text \<open>
  C1 as stated fails for platform entries of the same architecture in different
  packages: \<^verbatim>\<open>arduino/avr\<close> of one index file and \<^verbatim>\<open>adafruit/avr\<close> of another stay two
  platforms, each with its own boards and its own version.
\<close>

theorem same_architecture_counterexample:
  "loadIndexFiles [arduinoIndex, adafruitIndex] = [
     \<lparr> plat_architecture = ''avr'', plat_version = [], plat_versions = [''1.6.2''],
       plat_boards = [\<lparr> name = ''Arduino Uno'' \<rparr>, \<lparr> name = ''Arduino Mega'' \<rparr>],
       plat_package = ''arduino'' \<rparr>,
     \<lparr> plat_architecture = ''avr'', plat_version = [], plat_versions = [''1.4.0''],
       plat_boards = [\<lparr> name = ''Adafruit Flora'' \<rparr>], plat_package = ''adafruit'' \<rparr>]"
  by (simp add: loadIndexFiles_def parsePackageIndex_def addPlatform_def isAddedPlatform_def
      arduinoIndex_def adafruitIndex_def)

section \<open>Installing a board over HTTP (\<^verbatim>\<open>installPackage\<close>)\<close>

text \<open>
  C7. For every request body that is an object, \<^verbatim>\<open>installPackage\<close> sends a response. When
  the body lacks \<^verbatim>\<open>packageName\<close> or \<^verbatim>\<open>arch\<close> (the property is missing or, as \<^verbatim>\<open>!\<close> tests it,
  falsy: the code's own message calls both "Missing"), the status is 400 and \<^verbatim>\<open>installBoard\<close>
  is not called. When both are there, \<^verbatim>\<open>installBoard\<close> is called once, with the package
  name, the architecture and the version of the body; the response is the JSON
  \<^verbatim>\<open>{status: "OK"}\<close> when the call succeeds, and has the status 500 when it throws.
\<close>

theorem installPackage_responses:
  "\<exists>resp calls. installPackage installBoard (JObj kvs) = Inr (resp, calls) \<and>
     (\<not> truthy_opt (map_of kvs ''packageName'') \<or> \<not> truthy_opt (map_of kvs ''arch'') \<longrightarrow>
        status resp = 400 \<and> calls = []) \<and>
     (truthy_opt (map_of kvs ''packageName'') \<and> truthy_opt (map_of kvs ''arch'') \<longrightarrow>
        (\<exists>pkgName arch. map_of kvs ''packageName'' = Some pkgName \<and> map_of kvs ''arch'' = Some arch \<and>
           calls = [(pkgName, arch, map_of kvs ''version'')] \<and>
           (installBoard pkgName arch (map_of kvs ''version'') = None \<longrightarrow>
              resp = \<lparr> status = 200, body = JsonBody (JObj [(''status'', JStr ''OK'')]) \<rparr>) \<and>
           (installBoard pkgName arch (map_of kvs ''version'') \<noteq> None \<longrightarrow> status resp = 500)))"
proof (cases "map_of kvs ''packageName''")
  case None
  then show ?thesis by (simp add: installPackage_def badInstallRequest_def)
next
  case pn: (Some pkgName)
  show ?thesis
  proof (cases "truthy pkgName")
    case False
    with pn show ?thesis by (simp add: installPackage_def badInstallRequest_def)
  next
    case tp: True
    show ?thesis
    proof (cases "map_of kvs ''arch''")
      case None
      with pn tp show ?thesis by (simp add: installPackage_def badInstallRequest_def)
    next
      case ar: (Some arch)
      show ?thesis
      proof (cases "truthy arch")
        case False
        with pn tp ar show ?thesis by (simp add: installPackage_def badInstallRequest_def)
      next
        case ta: True
        show ?thesis
        proof (cases "installBoard pkgName arch (map_of kvs ''version'')")
          case None
          with pn tp ar ta show ?thesis by (simp add: installPackage_def)
        next
          case (Some error)
          with pn tp ar ta show ?thesis by (simp add: installPackage_def)
        qed
      qed
    qed
  qed
qed

theorem installPackage_responses_witness:
  "installPackage installSucceeds installRequest =
     Inr (\<lparr> status = 200, body = JsonBody (JObj [(''status'', JStr ''OK'')]) \<rparr>,
          [(JStr ''arduino'', JStr ''avr'', Some (JStr ''1.6.15''))]) \<and>
   (\<exists>resp calls. installPackage installThrows installRequest = Inr (resp, calls) \<and>
      status resp = 500 \<and> calls = [(JStr ''arduino'', JStr ''avr'', Some (JStr ''1.6.15''))]) \<and>
   (\<exists>resp. installPackage installSucceeds archOnlyRequest = Inr (resp, []) \<and> status resp = 400)"
proof -
  let ?kvs = "[(''packageName'', JStr ''arduino''), (''arch'', JStr ''avr''), (''version'', JStr ''1.6.15'')]"
  from installPackage_responses[of installSucceeds ?kvs]
  obtain resp calls where r: "installPackage installSucceeds (JObj ?kvs) = Inr (resp, calls)"
    and c: "calls = [(JStr ''arduino'', JStr ''avr'', Some (JStr ''1.6.15''))]"
    and ok: "resp = \<lparr> status = 200, body = JsonBody (JObj [(''status'', JStr ''OK'')]) \<rparr>"
    by (auto simp: installSucceeds_def)
  then have 1: "installPackage installSucceeds installRequest =
     Inr (\<lparr> status = 200, body = JsonBody (JObj [(''status'', JStr ''OK'')]) \<rparr>,
          [(JStr ''arduino'', JStr ''avr'', Some (JStr ''1.6.15''))])"
    by (simp add: installRequest_def)
  from installPackage_responses[of installThrows ?kvs]
  obtain resp' calls' where "installPackage installThrows (JObj ?kvs) = Inr (resp', calls')"
    and "calls' = [(JStr ''arduino'', JStr ''avr'', Some (JStr ''1.6.15''))]"
    and "status resp' = 500"
    by (auto simp: installThrows_def)
  then have 2: "\<exists>resp calls. installPackage installThrows installRequest = Inr (resp, calls) \<and>
      status resp = 500 \<and> calls = [(JStr ''arduino'', JStr ''avr'', Some (JStr ''1.6.15''))]"
    by (simp add: installRequest_def)
  from installPackage_responses[of installSucceeds "[(''arch'', JStr ''avr'')]"]
  obtain resp'' calls'' where "installPackage installSucceeds (JObj [(''arch'', JStr ''avr'')]) = Inr (resp'', calls'')"
    and "status resp'' = 400" and "calls'' = []"
    by auto
  then have 3: "\<exists>resp. installPackage installSucceeds archOnlyRequest = Inr (resp, []) \<and> status resp = 400"
    by (simp add: archOnlyRequest_def)
  from 1 2 3 show ?thesis by (intro conjI)
qed

section \<open>Leaves of the example tree (\<^verbatim>\<open>parseExamples\<close>)\<close>

text \<open>
  The store invariant is kept by every step of the loop, and reading a tree off a store
  that satisfies it gives a tree without children below a leaf.
\<close>

declare reify.simps [simp del]

lemma addExample_inv:
  assumes inv: "storeInv st" and pa: "exampleMap st p = Some pa"
    and nl: "isLeaf (store st ! pa) \<noteq> Some True" and new: "children new = []"
  shows "storeInv (addExample st pa new)"
proof -
  let ?ns = "store st"
  let ?n = "length ?ns"
  let ?par = "(?ns ! pa)\<lparr> children := children (?ns ! pa) @ [?n] \<rparr>"
  let ?ns' = "?ns[pa := ?par] @ [new]"
  from inv pa have pal: "pa < ?n" unfolding storeInv_def by blast
  from inv have leaf: "\<And>a. a < ?n \<Longrightarrow> isLeaf (?ns ! a) = Some True \<Longrightarrow> children (?ns ! a) = []"
    and bnd: "\<And>a c. a < ?n \<Longrightarrow> c \<in> set (children (?ns ! a)) \<Longrightarrow> a < c \<and> c < ?n"
    and rng: "\<And>p a. exampleMap st p = Some a \<Longrightarrow> a < ?n"
    unfolding storeInv_def by blast+
  have st': "store (addExample st pa new) = ?ns'"
    and mp': "exampleMap (addExample st pa new) = (exampleMap st)(node_path new \<mapsto> ?n)"
    by (simp_all add: addExample_def Let_def)
  have len: "length ?ns' = Suc ?n" by simp
  have at: "?ns' ! a = (if a = ?n then new else if a = pa then ?par else ?ns ! a)" if "a < Suc ?n" for a
    using that pal by (auto simp: nth_append nth_list_update)
  have 1: "children (?ns' ! a) = []" if "a < length ?ns'" "isLeaf (?ns' ! a) = Some True" for a
  proof -
    from that(1) have a: "a < Suc ?n" by simp
    show ?thesis
    proof (cases "a = ?n")
      case True
      with at[OF a] new show ?thesis by simp
    next
      case False
      show ?thesis
      proof (cases "a = pa")
        case True
        with at[OF a] False that(2) nl show ?thesis by simp
      next
        case npa: False
        with at[OF a] False that(2) have "isLeaf (?ns ! a) = Some True" by simp
        moreover from a False have "a < ?n" by simp
        ultimately have "children (?ns ! a) = []" using leaf by blast
        with at[OF a] False npa show ?thesis by simp
      qed
    qed
  qed
  have 2: "a < c \<and> c < length ?ns'" if "a < length ?ns'" "c \<in> set (children (?ns' ! a))" for a c
  proof -
    from that(1) have a: "a < Suc ?n" by simp
    show ?thesis
    proof (cases "a = ?n")
      case True
      with at[OF a] new that(2) show ?thesis by simp
    next
      case False
      then have an: "a < ?n" using a by simp
      show ?thesis
      proof (cases "a = pa")
        case True
        with at[OF a] False that(2) have "c \<in> set (children (?ns ! pa)) \<or> c = ?n" by auto
        then show ?thesis
        proof
          assume "c \<in> set (children (?ns ! pa))"
          from bnd[OF pal this] True show ?thesis by simp
        next
          assume "c = ?n"
          with True pal show ?thesis by simp
        qed
      next
        case npa: False
        with at[OF a] False that(2) have "c \<in> set (children (?ns ! a))" by simp
        from bnd[OF an this] show ?thesis by simp
      qed
    qed
  qed
  have 3: "a < length ?ns'" if "((exampleMap st)(node_path new \<mapsto> ?n)) p = Some a" for p a
  proof (cases "p = node_path new")
    case True
    with that show ?thesis by simp
  next
    case False
    with that have "exampleMap st p = Some a" by simp
    from rng[OF this] show ?thesis by simp
  qed
  have 4: "?ns' \<noteq> []" by simp
  have A: "\<forall>a<length ?ns'. isLeaf (?ns' ! a) = Some True \<longrightarrow> children (?ns' ! a) = []"
    using 1 by blast
  have B: "\<forall>a<length ?ns'. \<forall>c\<in>set (children (?ns' ! a)). a < c \<and> c < length ?ns'"
    using 2 by blast
  have C: "\<forall>p a. ((exampleMap st)(node_path new \<mapsto> ?n)) p = Some a \<longrightarrow> a < length ?ns'"
    using 3 by blast
  show ?thesis unfolding storeInv_def st' mp' by (intro conjI A B C 4)
qed

lemma exampleLoop_inv:
  "storeInv st \<Longrightarrow> exampleLoop E folders st = Inr st' \<Longrightarrow> storeInv st'"
proof (induction folders arbitrary: st)
  case Nil
  then show ?case by simp
next
  case (Cons folder rest)
  show ?case
  proof (cases "exampleMap st (dirname folder)")
    case None
    with Cons.prems(2) have "exampleLoop E rest st = Inr st'" by simp
    from Cons.IH[OF Cons.prems(1) this] show ?thesis .
  next
    case (Some pa)
    show ?thesis
    proof (cases "isLeaf (store st ! pa) = Some True")
      case True
      with Some Cons.prems(2) have "exampleLoop E rest st = Inr st'" by simp
      from Cons.IH[OF Cons.prems(1) this] show ?thesis .
    next
      case False
      show ?thesis
      proof (cases "isExampleFolder E folder")
        case (Inl e)
        with Some False Cons.prems(2) show ?thesis by simp
      next
        case (Inr leaf)
        let ?new = "\<lparr> node_name = basename folder, node_path = folder, isLeaf = Some leaf, children = [] \<rparr>"
        from Some False Inr Cons.prems(2)
        have run: "exampleLoop E rest (addExample st pa ?new) = Inr st'" by simp
        have "storeInv (addExample st pa ?new)"
          by (rule addExample_inv[OF Cons.prems(1) Some False]) simp
        from Cons.IH[OF this run] show ?thesis .
      qed
    qed
  qed
qed

lemma reify_children:
  assumes "\<forall>a<length ns. \<forall>c\<in>set (children (ns ! a)). a < c \<and> c < length ns" "a < length ns"
  shows "tree_children (reify ns a) = map (reify ns) (children (ns ! a))"
proof -
  from assms have "\<forall>c\<in>set (children (ns ! a)). a < c \<and> c < length ns" by blast
  then have "filter (\<lambda>c. a < c \<and> c < length ns) (children (ns ! a)) = children (ns ! a)"
    by (rule filter_True)
  then show ?thesis by (subst reify.simps) (simp only: example_tree.sel)
qed

lemma reify_leafFree:
  "\<forall>a<length ns. isLeaf (ns ! a) = Some True \<longrightarrow> children (ns ! a) = [] \<Longrightarrow>
   a < length ns \<Longrightarrow> leafFree (reify ns a)"
proof (induction ns a rule: reify.induct)
  case (1 st a)
  note leaf = "1.prems"(1)
  let ?cs = "filter (\<lambda>c. a < c \<and> c < length st) (children (st ! a))"
  have sub: "leafFree (reify st c)" if "c \<in> set ?cs" for c
  proof -
    from that have "c < length st" by simp
    from "1.IH"[OF that leaf this] show ?thesis .
  qed
  have r: "reify st a = ExampleNode (node_name (st ! a)) (node_path (st ! a)) (isLeaf (st ! a)) (map (reify st) ?cs)"
    by (subst reify.simps) simp
  have here: "isLeaf (st ! a) = Some True \<longrightarrow> map (reify st) ?cs = []"
    using leaf "1.prems"(2) by simp
  show ?case
    unfolding leafFree_def r
  proof (intro ballI impI)
    fix n assume n: "n \<in> set (subtrees (ExampleNode (node_name (st ! a)) (node_path (st ! a)) (isLeaf (st ! a)) (map (reify st) ?cs)))"
      and l: "tree_isLeaf n = Some True"
    from n consider "n = ExampleNode (node_name (st ! a)) (node_path (st ! a)) (isLeaf (st ! a)) (map (reify st) ?cs)"
      | c where "c \<in> set ?cs" "n \<in> set (subtrees (reify st c))" by auto
    then show "tree_children n = []"
    proof cases
      case 1
      with l here show ?thesis by simp
    next
      case 2
      with sub[OF 2(1)] l show ?thesis unfolding leafFree_def by blast
    qed
  qed
qed

text \<open>
  C10. In every tree \<^verbatim>\<open>parseExamples\<close> returns, a node whose \<^verbatim>\<open>isLeaf\<close> flag is true has an
  empty \<^verbatim>\<open>children\<close> list, at every depth: nothing is added below a folder that was marked
  as a leaf.
\<close>

theorem parseExamples_leaf_has_no_children:
  "parseExamples E rootPath = Inr trees \<Longrightarrow>
     \<forall>t\<in>set trees. \<forall>n\<in>set (subtrees t). tree_isLeaf n = Some True \<longrightarrow> tree_children n = []"
proof -
  assume a: "parseExamples E rootPath = Inr trees"
  show ?thesis
  proof (cases "directoryExistsSync E rootPath")
    case False
    with a have "trees = []" by (simp add: parseExamples_def)
    then show ?thesis by simp
  next
    case True
    show ?thesis
    proof (cases "globSync E rootPath")
      case Nil
      with True a show ?thesis by (simp add: parseExamples_def)
    next
      case (Cons first exampleFolders)
      let ?st0 = "\<lparr> store = [rootNode], exampleMap = [first \<mapsto> 0] \<rparr>"
      from a True Cons obtain st where run: "exampleLoop E exampleFolders ?st0 = Inr st"
        and trees: "trees = map (reify (store st)) (children (store st ! 0))"
        by (auto simp: parseExamples_def split: sum.splits)
      have "storeInv ?st0" by (simp add: storeInv_def rootNode_def)
      from exampleLoop_inv[OF this run] have inv: "storeInv st" .
      then have leaf: "\<forall>a<length (store st). isLeaf (store st ! a) = Some True \<longrightarrow> children (store st ! a) = []"
        and bnd: "\<forall>a<length (store st). \<forall>c\<in>set (children (store st ! a)). a < c \<and> c < length (store st)"
        and ne: "store st \<noteq> []"
        unfolding storeInv_def by blast+
      have "leafFree t" if "t \<in> set trees" for t
      proof -
        from that trees obtain c where c: "c \<in> set (children (store st ! 0))" "t = reify (store st) c" by auto
        from ne have "0 < length (store st)" by simp
        with bnd c(1) have "c < length (store st)" by blast
        from reify_leafFree[OF leaf this] c(2) show ?thesis by simp
      qed
      then show ?thesis unfolding leafFree_def by blast
    qed
  qed
qed

text \<open>
  The example folder: \<^verbatim>\<open>Blink\<close> holds a sketch and a subfolder \<^verbatim>\<open>extras\<close>, which the glob lists
  and the tree leaves out.
\<close>

lemma example_tree_eval:
  "parseExamples examplesEnv [''ide'', ''examples''] = Inr [basicsTree]"
  by (simp add: parseExamples_def examplesEnv_def rootNode_def addExample_def isExampleFolder_def
      dirname_def basename_def endsWith_def reify.simps basicsTree_def blinkTree_def fadeTree_def)

theorem parseExamples_leaf_has_no_children_witness:
  "parseExamples examplesEnv [''ide'', ''examples''] = Inr [basicsTree] \<and>
   [''ide'', ''examples'', ''Basics'', ''Blink'', ''extras''] \<in> set (globSync examplesEnv [''ide'', ''examples'']) \<and>
   blinkTree \<in> set (subtrees basicsTree) \<and>
   tree_isLeaf blinkTree = Some True \<and>
   tree_children blinkTree = []"
proof -
  have m: "basicsTree \<in> set [basicsTree]" by simp
  have s: "blinkTree \<in> set (subtrees basicsTree)" by (simp add: basicsTree_def blinkTree_def)
  have l: "tree_isLeaf blinkTree = Some True" by (simp add: blinkTree_def)
  from parseExamples_leaf_has_no_children[OF example_tree_eval] m s l
  have c: "tree_children blinkTree = []" by blast
  have g: "[''ide'', ''examples'', ''Basics'', ''Blink'', ''extras''] \<in> set (globSync examplesEnv [''ide'', ''examples''])"
    by (simp add: examplesEnv_def)
  from example_tree_eval g s l c show ?thesis by (intro conjI)
qed


section \<open>Compatible libraries (\<^verbatim>\<open>parseExamplesFromLibrary\<close>)\<close>

text \<open>\<^verbatim>\<open>indexOf\<close> finds an occurrence exactly when there is one.\<close>

lemma occursIn_Cons:
  "occursIn t (c # s) \<longleftrightarrow> startsWith (c # s) t \<or> occursIn t s"
proof
  assume "occursIn t (c # s)"
  then obtain pre post where e: "c # s = pre @ t @ post" unfolding occursIn_def by blast
  show "startsWith (c # s) t \<or> occursIn t s"
  proof (cases pre)
    case Nil
    with e have "c # s = t @ post" by simp
    then have "startsWith (c # s) t" unfolding startsWith_def by simp
    then show ?thesis ..
  next
    case (Cons a pre')
    with e have "s = pre' @ t @ post" by simp
    then have "occursIn t s" unfolding occursIn_def by blast
    then show ?thesis ..
  qed
next
  assume "startsWith (c # s) t \<or> occursIn t s"
  then show "occursIn t (c # s)"
  proof
    assume "startsWith (c # s) t"
    then have "c # s = [] @ t @ drop (length t) (c # s)"
      unfolding startsWith_def by (metis append_Nil append_take_drop_id)
    then show ?thesis unfolding occursIn_def by blast
  next
    assume "occursIn t s"
    then obtain pre post where "s = pre @ t @ post" unfolding occursIn_def by blast
    then have "c # s = (c # pre) @ t @ post" by simp
    then show ?thesis unfolding occursIn_def by blast
  qed
qed

lemma indexOfFrom_ge0: "0 \<le> i \<Longrightarrow> (indexOfFrom i s t \<ge> 0) = occursIn t s"
proof (induction s arbitrary: i)
  case Nil
  then show ?case by (auto simp: occursIn_def)
next
  case (Cons c s)
  from Cons.prems have "0 \<le> i + 1" by simp
  from Cons.IH[OF this] Cons.prems show ?case by (simp add: occursIn_Cons)
qed

lemma indexOf_ge0: "(indexOf s t \<ge> 0) = occursIn t s"
  by (simp add: indexOf_def indexOfFrom_ge0)

lemma isSupported_iff:
  "isSupported targetArch architectures \<longleftrightarrow>
     (\<exists>a. architectures = Some a \<and> a \<noteq> [] \<and>
        (case targetArch of None \<Rightarrow> True | Some arch \<Rightarrow> occursIn arch a \<or> occursIn ''*'' a))"
  by (cases architectures; cases targetArch) (simp_all add: isSupported_def indexOf_ge0)

text \<open>The loop appends the nodes of the compatible and of the incompatible libraries.\<close>

lemma libraryLoop_eq:
  "libraryLoop E targetArch rootPath need libraries acc = Inr res \<Longrightarrow>
     res = (fst acc @ map (listingNode E rootPath) (filter (compatibleLibrary E targetArch rootPath) libraries),
            snd acc @ (if need then map (listingNode E rootPath)
                                     (filter (incompatibleLibrary E targetArch rootPath) libraries)
                       else []))"
proof (induction libraries arbitrary: acc)
  case Nil
  then show ?case by auto
next
  case (Cons library rest)
  let ?pf = "rootPath @ [library, ''library.properties'']"
  have pf: "propertiesFile rootPath library = ?pf" by (simp add: propertiesFile_def)
  show ?case
  proof (cases "fileExistsSync E ?pf")
    case False
    then have no: "\<not> hasExamples E rootPath library" by (simp add: hasExamples_def pf)
    from False Cons.prems have "libraryLoop E targetArch rootPath need rest acc = Inr res" by simp
    from Cons.IH[OF this] no show ?thesis
      by (simp add: compatibleLibrary_def incompatibleLibrary_def)
  next
    case fe: True
    show ?thesis
    proof (cases "parseProperties E ?pf")
      case (Inl e)
      with fe Cons.prems show ?thesis by simp
    next
      case pp: (Inr properties)
      then have la: "libraryArchitectures E rootPath library = properties ''architectures''"
        by (simp add: libraryArchitectures_def pf)
      show ?thesis
      proof (cases "parseExamples E (rootPath @ [library, ''examples''])")
        case (Inl e)
        with fe pp Cons.prems show ?thesis by simp
      next
        case pe: (Inr cs)
        then have lc: "libraryChildren E rootPath library = cs" by (simp add: libraryChildren_def)
        have node: "listingNode E rootPath library = libraryNode rootPath library cs"
          by (simp add: listingNode_def lc)
        show ?thesis
        proof (cases "cs = []")
          case True
          then have no: "\<not> hasExamples E rootPath library" by (simp add: hasExamples_def lc)
          from True fe pp pe Cons.prems have "libraryLoop E targetArch rootPath need rest acc = Inr res" by simp
          from Cons.IH[OF this] no show ?thesis
            by (simp add: compatibleLibrary_def incompatibleLibrary_def)
        next
          case ne: False
          with fe have he: "hasExamples E rootPath library" by (simp add: hasExamples_def lc pf)
          show ?thesis
          proof (cases "isSupported targetArch (properties ''architectures'')")
            case True
            with he la have c: "compatibleLibrary E targetArch rootPath library"
              "\<not> incompatibleLibrary E targetArch rootPath library"
              by (simp_all add: compatibleLibrary_def incompatibleLibrary_def)
            from True ne fe pp pe Cons.prems
            have "libraryLoop E targetArch rootPath need rest
                    (fst acc @ [libraryNode rootPath library cs], snd acc) = Inr res" by simp
            from Cons.IH[OF this] c node show ?thesis by simp
          next
            case False
            with he la have c: "\<not> compatibleLibrary E targetArch rootPath library"
              "incompatibleLibrary E targetArch rootPath library"
              by (simp_all add: compatibleLibrary_def incompatibleLibrary_def)
            show ?thesis
            proof (cases need)
              case True
              with False ne fe pp pe Cons.prems
              have "libraryLoop E targetArch rootPath need rest
                    (fst acc, snd acc @ [libraryNode rootPath library cs]) = Inr res" by simp
              from Cons.IH[OF this] c node True show ?thesis by simp
            next
              case nn: False
              with False ne fe pp pe Cons.prems
              have "libraryLoop E targetArch rootPath need rest acc = Inr res" by simp
              from Cons.IH[OF this] c nn show ?thesis by simp
            qed
          qed
        qed
      qed
    qed
  qed
qed

lemma listingNode_inj: "listingNode E rootPath l = listingNode E rootPath l' \<Longrightarrow> l = l'"
  by (simp add: listingNode_def libraryNode_def)

text \<open>
  What the code lists. The listing is the compatible nodes followed by the
  \<^verbatim>\<open>INCOMPATIBLE\<close> group. For every library of the scanned directory that has a
  \<^verbatim>\<open>library.properties\<close> file and at least one example tree, its node is among the
  compatible ones exactly when its \<^verbatim>\<open>architectures\<close> value is present, not empty, and, if a
  board is selected, contains the architecture of the board or \<^verbatim>\<open>*\<close> as a substring. Every
  compatible node and every node of the group is the node of such a library, and no
  node of the group is compatible.
\<close>

theorem parseExamplesFromLibrary_compatible:
  assumes "parseExamplesFromLibrary E targetArch rootPath need = Inr result"
    and "readdirFolders E rootPath = Inr libraries"
  shows "\<exists>examples inCompatibles.
     result = examples @ incompatibleGroup need inCompatibles \<and>
     (\<forall>library\<in>set libraries. hasExamples E rootPath library \<longrightarrow>
        (listingNode E rootPath library \<in> set examples \<longleftrightarrow>
           (\<exists>a. libraryArchitectures E rootPath library = Some a \<and> a \<noteq> [] \<and>
              (case targetArch of None \<Rightarrow> True | Some arch \<Rightarrow> occursIn arch a \<or> occursIn ''*'' a)))) \<and>
     (\<forall>n\<in>set examples. \<exists>library\<in>set libraries.
        hasExamples E rootPath library \<and> n = listingNode E rootPath library) \<and>
     (\<forall>n\<in>set inCompatibles. \<exists>library\<in>set libraries.
        hasExamples E rootPath library \<and> n = listingNode E rootPath library \<and>
        listingNode E rootPath library \<notin> set examples)"
proof -
  from assms obtain acc where run: "libraryLoop E targetArch rootPath need libraries ([], []) = Inr acc"
    and res: "result = fst acc @ incompatibleGroup need (snd acc)"
    by (auto simp: parseExamplesFromLibrary_def split: sum.splits)
  define examples where "examples = map (listingNode E rootPath) (filter (compatibleLibrary E targetArch rootPath) libraries)"
  define inCompatibles where "inCompatibles = (if need then map (listingNode E rootPath)
                                     (filter (incompatibleLibrary E targetArch rootPath) libraries) else [])"
  from libraryLoop_eq[OF run] have acc: "acc = (examples, inCompatibles)"
    by (simp add: examples_def inCompatibles_def)
  have mem: "listingNode E rootPath l \<in> set examples \<longleftrightarrow> l \<in> set libraries \<and> compatibleLibrary E targetArch rootPath l" for l
  proof
    assume "listingNode E rootPath l \<in> set examples"
    then obtain l' where "l' \<in> set libraries" "compatibleLibrary E targetArch rootPath l'"
      "listingNode E rootPath l = listingNode E rootPath l'" unfolding examples_def by auto
    with listingNode_inj show "l \<in> set libraries \<and> compatibleLibrary E targetArch rootPath l" by metis
  next
    assume "l \<in> set libraries \<and> compatibleLibrary E targetArch rootPath l"
    then show "listingNode E rootPath l \<in> set examples" unfolding examples_def by simp
  qed
  have 1: "result = examples @ incompatibleGroup need inCompatibles" using res acc by simp
  have 2: "\<forall>library\<in>set libraries. hasExamples E rootPath library \<longrightarrow>
        (listingNode E rootPath library \<in> set examples \<longleftrightarrow>
           (\<exists>a. libraryArchitectures E rootPath library = Some a \<and> a \<noteq> [] \<and>
              (case targetArch of None \<Rightarrow> True | Some arch \<Rightarrow> occursIn arch a \<or> occursIn ''*'' a)))"
  proof (intro ballI impI)
    fix library assume l: "library \<in> set libraries" and he: "hasExamples E rootPath library"
    from mem[of library] l he have "listingNode E rootPath library \<in> set examples \<longleftrightarrow>
        isSupported targetArch (libraryArchitectures E rootPath library)"
      by (simp add: compatibleLibrary_def)
    then show "listingNode E rootPath library \<in> set examples \<longleftrightarrow>
           (\<exists>a. libraryArchitectures E rootPath library = Some a \<and> a \<noteq> [] \<and>
              (case targetArch of None \<Rightarrow> True | Some arch \<Rightarrow> occursIn arch a \<or> occursIn ''*'' a))"
      by (simp only: isSupported_iff)
  qed
  have 3: "\<forall>n\<in>set examples. \<exists>library\<in>set libraries.
        hasExamples E rootPath library \<and> n = listingNode E rootPath library"
    unfolding examples_def by (auto simp: compatibleLibrary_def)
  have 4: "\<forall>n\<in>set inCompatibles. \<exists>library\<in>set libraries.
        hasExamples E rootPath library \<and> n = listingNode E rootPath library \<and>
        listingNode E rootPath library \<notin> set examples"
  proof
    fix n assume "n \<in> set inCompatibles"
    then obtain l where l: "l \<in> set libraries" "incompatibleLibrary E targetArch rootPath l"
      "n = listingNode E rootPath l"
      unfolding inCompatibles_def by (auto split: if_splits)
    from l(2) have "hasExamples E rootPath l" "\<not> compatibleLibrary E targetArch rootPath l"
      by (simp_all add: incompatibleLibrary_def compatibleLibrary_def)
    with mem[of l] l(1,3) show "\<exists>library\<in>set libraries.
        hasExamples E rootPath library \<and> n = listingNode E rootPath library \<and>
        listingNode E rootPath library \<notin> set examples" by blast
  qed
  from 1 2 3 4 show ?thesis by (intro exI[of _ examples] exI[of _ inCompatibles] conjI)
qed

text \<open>The example library directory.\<close>

lemma library_defs_eval:
  "readdirFolders examplesEnv [''libs''] = Inr [''Wire'', ''Servo'', ''Ethernet'', ''Notes'']"
  by (simp add: examplesEnv_def)

lemmas examples_eval_defs = parseExamples_def examplesEnv_def rootNode_def addExample_def
  isExampleFolder_def dirname_def basename_def endsWith_def reify.simps

lemma example_listing:
  "parseExamplesFromLibrary examplesEnv (Some ''avr'') [''libs''] True =
     Inr [wireNode, ExampleNode ''INCOMPATIBLE'' [''INCOMPATIBLE''] None [ethernetNode]]"
  by (simp add: parseExamplesFromLibrary_def incompatibleGroup_def isSupported_def indexOf_def startsWith_def
      examples_eval_defs wireNode_def ethernetNode_def libraryNode_def)

lemma example_libraries:
  "hasExamples examplesEnv [''libs''] ''Wire''"
  "hasExamples examplesEnv [''libs''] ''Ethernet''"
  "\<not> hasExamples examplesEnv [''libs''] ''Servo''"
  "libraryArchitectures examplesEnv [''libs''] ''Wire'' = Some ''avr''"
  "libraryArchitectures examplesEnv [''libs''] ''Ethernet'' = Some ''sam''"
  "libraryArchitectures examplesEnv [''libs''] ''Servo'' = Some ''avr,sam''"
  by (simp_all add: hasExamples_def libraryChildren_def libraryArchitectures_def propertiesFile_def
      examples_eval_defs)

lemma example_occurs:
  "occursIn ''avr'' ''avr''" "\<not> occursIn ''avr'' ''sam''" "\<not> occursIn ''*'' ''sam''"
  "occursIn ''avr'' ''avr,sam''"
  unfolding indexOf_ge0[symmetric] by (simp_all add: indexOf_def startsWith_def)

theorem parseExamplesFromLibrary_compatible_witness:
  "readdirFolders examplesEnv [''libs''] = Inr [''Wire'', ''Servo'', ''Ethernet'', ''Notes''] \<and>
   parseExamplesFromLibrary examplesEnv (Some ''avr'') [''libs''] True =
     Inr [wireNode, ExampleNode ''INCOMPATIBLE'' [''INCOMPATIBLE''] None [ethernetNode]] \<and>
   hasExamples examplesEnv [''libs''] ''Wire'' \<and>
   libraryArchitectures examplesEnv [''libs''] ''Wire'' = Some ''avr'' \<and>
   hasExamples examplesEnv [''libs''] ''Ethernet'' \<and>
   libraryArchitectures examplesEnv [''libs''] ''Ethernet'' = Some ''sam'' \<and>
   (\<exists>examples inCompatibles.
      [wireNode, ExampleNode ''INCOMPATIBLE'' [''INCOMPATIBLE''] None [ethernetNode]] =
        examples @ incompatibleGroup True inCompatibles \<and>
      listingNode examplesEnv [''libs''] ''Wire'' \<in> set examples \<and>
      listingNode examplesEnv [''libs''] ''Ethernet'' \<notin> set examples)"
proof -
  let ?libs = "[''Wire'', ''Servo'', ''Ethernet'', ''Notes'']"
  let ?res = "[wireNode, ExampleNode ''INCOMPATIBLE'' [''INCOMPATIBLE''] None [ethernetNode]]"
  let ?ok = "\<lambda>library a. case Some ''avr'' of None \<Rightarrow> True
                          | Some arch \<Rightarrow> occursIn arch a \<or> occursIn ''*'' a"
  from parseExamplesFromLibrary_compatible[OF example_listing library_defs_eval]
  obtain examples inCompatibles where
    r: "?res = examples @ incompatibleGroup True inCompatibles" and
    iff: "\<forall>library\<in>set ?libs. hasExamples examplesEnv [''libs''] library \<longrightarrow>
        (listingNode examplesEnv [''libs''] library \<in> set examples \<longleftrightarrow>
           (\<exists>a. libraryArchitectures examplesEnv [''libs''] library = Some a \<and> a \<noteq> [] \<and>
              (case Some ''avr'' of None \<Rightarrow> True | Some arch \<Rightarrow> occursIn arch a \<or> occursIn ''*'' a)))"
    by blast
  from iff example_libraries(1) have
    "listingNode examplesEnv [''libs''] ''Wire'' \<in> set examples \<longleftrightarrow>
       (\<exists>a. libraryArchitectures examplesEnv [''libs''] ''Wire'' = Some a \<and> a \<noteq> [] \<and>
              (case Some ''avr'' of None \<Rightarrow> True | Some arch \<Rightarrow> occursIn arch a \<or> occursIn ''*'' a))"
    by simp
  then have w: "listingNode examplesEnv [''libs''] ''Wire'' \<in> set examples"
    by (simp add: example_libraries(4) example_occurs)
  from iff example_libraries(2) have
    "listingNode examplesEnv [''libs''] ''Ethernet'' \<in> set examples \<longleftrightarrow>
       (\<exists>a. libraryArchitectures examplesEnv [''libs''] ''Ethernet'' = Some a \<and> a \<noteq> [] \<and>
              (case Some ''avr'' of None \<Rightarrow> True | Some arch \<Rightarrow> occursIn arch a \<or> occursIn ''*'' a))"
    by simp
  then have e: "listingNode examplesEnv [''libs''] ''Ethernet'' \<notin> set examples"
    by (simp add: example_libraries(5) example_occurs)
  from r w e have "\<exists>examples inCompatibles.
      ?res = examples @ incompatibleGroup True inCompatibles \<and>
      listingNode examplesEnv [''libs''] ''Wire'' \<in> set examples \<and>
      listingNode examplesEnv [''libs''] ''Ethernet'' \<notin> set examples"
    by (intro exI[of _ examples] exI[of _ inCompatibles] conjI)
  with library_defs_eval example_listing example_libraries(1,2,4,5) show ?thesis
    by (intro conjI)
qed

text \<open>
  A library without examples has no node: \<^verbatim>\<open>Servo\<close> has a properties file whose
  \<^verbatim>\<open>architectures\<close> value is \<^verbatim>\<open>avr,sam\<close>, and the guard \<^verbatim>\<open>if (children.length)\<close> skips it for a
  board of architecture \<^verbatim>\<open>avr\<close> and when no board is selected.
\<close>

lemma library_without_examples:
  "readdirFolders examplesEnv [''libs''] = Inr [''Wire'', ''Servo'', ''Ethernet'', ''Notes''] \<and>
   fileExistsSync examplesEnv [''libs'', ''Servo'', ''library.properties''] \<and>
   libraryArchitectures examplesEnv [''libs''] ''Servo'' = Some ''avr,sam'' \<and>
   indexOf ''avr,sam'' ''avr'' = 0 \<and>
   parseExamplesFromLibrary examplesEnv (Some ''avr'') [''libs''] False = Inr [wireNode] \<and>
   parseExamplesFromLibrary examplesEnv None [''libs''] False = Inr [wireNode, ethernetNode] \<and>
   tree_name wireNode = ''Wire'' \<and> tree_name ethernetNode = ''Ethernet''"
  by (simp add: parseExamplesFromLibrary_def incompatibleGroup_def isSupported_def indexOf_def startsWith_def
      libraryArchitectures_def propertiesFile_def
      examples_eval_defs wireNode_def ethernetNode_def libraryNode_def)

text \<open>
  C6 fails on the code for a library whose architecture has the architecture of the
  board inside its name. \<^verbatim>\<open>Wire\<close> has an example and the \<^verbatim>\<open>architectures\<close> value \<^verbatim>\<open>megaavr\<close>: the
  list it names holds neither \<^verbatim>\<open>avr\<close> nor \<^verbatim>\<open>*\<close>. For a board of architecture \<^verbatim>\<open>avr\<close> the
  library is listed as compatible all the same, because \<^verbatim>\<open>isSupported\<close> looks for the
  architecture with \<^verbatim>\<open>indexOf\<close> in the text of the field and not among the items of the list.
\<close>

theorem parseExamplesFromLibrary_substring:
  "readdirFolders megaavrEnv [''libs''] = Inr [''Wire'', ''Servo'', ''Ethernet'', ''Notes''] \<and>
   hasExamples megaavrEnv [''libs''] ''Wire'' \<and>
   libraryArchitectures megaavrEnv [''libs''] ''Wire'' = Some ''megaavr'' \<and>
   architectureList ''megaavr'' = [''megaavr''] \<and>
   ''avr'' \<notin> set (architectureList ''megaavr'') \<and>
   ''*'' \<notin> set (architectureList ''megaavr'') \<and>
   indexOf ''megaavr'' ''avr'' = 4 \<and>
   listingNode megaavrEnv [''libs''] ''Wire'' = wireNode \<and>
   parseExamplesFromLibrary megaavrEnv (Some ''avr'') [''libs''] False = Inr [wireNode]"
  by (simp add: parseExamplesFromLibrary_def incompatibleGroup_def isSupported_def indexOf_def startsWith_def
      libraryArchitectures_def propertiesFile_def hasExamples_def libraryChildren_def listingNode_def
      architectureList_def trim_def isWhiteSpace_def megaavrEnv_def
      examples_eval_defs wireNode_def libraryNode_def)

end
